theory Spec2Isabelle
  imports
    Complex_Main
    "HOL-Library.Char_ord"
    "HOL-Library.List_Lexorder"
    "HOL-Library.Product_Lexorder"
    "HOL-Library.AList"
begin

section \<open>The abbreviation spell checker: models and noisy-channel search\<close>

text \<open>
  A shallow embedding of \<^verbatim>\<open>src/nlp/abbreviation_spellchecker_Frodo.ipynb\<close>: the classes
  \<^verbatim>\<open>LanguageNgramModel\<close> and \<^verbatim>\<open>MissingLetterModel\<close> and the functions
  \<^verbatim>\<open>generate_options\<close> and \<^verbatim>\<open>noisy_channel\<close>.

  Conventions of the embedding.
  \<^item> Python floats are real numbers, \<^verbatim>\<open>np.log\<close> is \<open>ln\<close> and \<^verbatim>\<open>np.exp\<close> is \<open>exp\<close>.
    Rounding is not modelled. The embedding follows the program as long as no
    non-finite float arises, that is: no logarithm of a number that is not positive, no
    division by zero inside pandas, and no label missing when two Series are added.
    Theorems carry the hypotheses that exclude these cases where they matter.
  \<^item> A Python string is a \<open>string\<close>; a token (a string of length one obtained by
    iterating over a string) is a \<open>char\<close>.
  \<^item> A \<^verbatim>\<open>Counter\<close> is a function \<open>char \<Rightarrow> nat\<close>: reading a missing key gives 0 and
    stores nothing. A \<^verbatim>\<open>defaultdict(lambda: Counter())\<close> is a map from contexts to
    counters; reading a missing key \<^emph>\<open>stores\<close> a fresh empty counter under it, so
    every read returns the table as well.
  \<^item> A pandas \<^verbatim>\<open>Series\<close> is an association list from labels to values, in index order.
  \<^item> Every method that reads a table takes the model and returns it, possibly grown.
    An exception is a value \<open>Inl e\<close>; the tables touched before it was raised stay touched.
  \<^item> Both classes have a field \<^verbatim>\<open>order\<close> and methods \<^verbatim>\<open>fit\<close>, \<^verbatim>\<open>predict_proba\<close>,
    \<^verbatim>\<open>single_log_proba\<close>, \<^verbatim>\<open>single_proba\<close>; the names of the language model carry the
    prefix \<open>lang_\<close> and those of the deletion model the prefix \<open>missed_\<close>, after the
    variables \<^verbatim>\<open>lang_model\<close> and \<^verbatim>\<open>missed_model\<close> of the notebook.
  \<^item> \<^verbatim>\<open>heapq\<close> is modelled by its contract: the heap is a list kept sorted by the
    lexicographic order of the tuples, \<^verbatim>\<open>heappush\<close> inserts and \<^verbatim>\<open>heappop\<close> takes the
    least element. Tuples that compare equal are equal, so the contract determines
    every value the program computes.
  \<^item> \<^verbatim>\<open>order\<close> and \<^verbatim>\<open>max_attempts\<close> are natural numbers.
  \<^item> An attribute that fitting creates is written with the suffix \<open>attr\<close> in place of
    the bare trailing underscore: \<open>counter_attr\<close> is \<^verbatim>\<open>counter_\<close>, \<open>vocabulary_attr\<close> is
    \<^verbatim>\<open>vocabulary_\<close>, and so on.
\<close>

subsection \<open>Errors, counters, tables, Series\<close>

datatype error = KeyError | IndexError | ZeroDivisionError | AttributeError

type_synonym counter = "char \<Rightarrow> nat"

type_synonym defaultdict = "string \<rightharpoonup> counter"

type_synonym series = "(char \<times> real) list"

definition empty_counter :: counter where
  "empty_counter = (\<lambda>_. 0)"

text \<open>\<^verbatim>\<open>d[k]\<close> on a defaultdict: the counter under \<open>k\<close>, stored first if it was missing.\<close>

definition dd_getitem :: "defaultdict \<Rightarrow> string \<Rightarrow> counter \<times> defaultdict" where
  "dd_getitem d k =
     (case d k of
        Some c \<Rightarrow> (c, d)
      | None \<Rightarrow> (empty_counter, d(k \<mapsto> empty_counter)))"

text \<open>\<^verbatim>\<open>d[k][t] += 1\<close>.\<close>

definition dd_increment :: "defaultdict \<Rightarrow> string \<Rightarrow> char \<Rightarrow> defaultdict" where
  "dd_increment d k t =
     (case dd_getitem d k of (c, d') \<Rightarrow> d'(k \<mapsto> c(t := c t + 1)))"

text \<open>\<^verbatim>\<open>context[-order:] if order else ''\<close>.\<close>

definition local_context :: "nat \<Rightarrow> string \<Rightarrow> string" where
  "local_context ord context =
     (if ord \<noteq> 0 then drop (length context - ord) context else [])"

text \<open>\<^verbatim>\<open>s * x\<close>, \<^verbatim>\<open>s.sum()\<close>, \<^verbatim>\<open>s / x\<close> and \<^verbatim>\<open>s[label]\<close> on a Series.\<close>

definition series_scale :: "series \<Rightarrow> real \<Rightarrow> series" where
  "series_scale s x = map (\<lambda>(t, v). (t, v * x)) s"

definition series_sum :: "series \<Rightarrow> real" where
  "series_sum s = sum_list (map snd s)"

definition series_div :: "series \<Rightarrow> real \<Rightarrow> series" where
  "series_div s x = map (\<lambda>(t, v). (t, v / x)) s"

definition series_getitem :: "series \<Rightarrow> char \<Rightarrow> error + real" where
  "series_getitem s t = (case map_of s t of None \<Rightarrow> Inl KeyError | Some v \<Rightarrow> Inr v)"

text \<open>
  \<^verbatim>\<open>freq += child_freq\<close>: pandas adds by label and keeps the index of \<^verbatim>\<open>freq\<close>. For a
  label that \<^verbatim>\<open>child_freq\<close> lacks pandas stores NaN, which the reals do not have; the
  embedding leaves the entry as it was. Lemma \<open>lang_fit_wf\<close> below shows that the case
  does not arise for a fitted model: every label of a model is a label of its child.
\<close>

definition series_iadd :: "series \<Rightarrow> series \<Rightarrow> series" where
  "series_iadd s other =
     map (\<lambda>(t, v). (t, (case map_of other t of Some w \<Rightarrow> v + w | None \<Rightarrow> v))) s"

subsection \<open>LanguageNgramModel\<close>

datatype LanguageNgramModel = LanguageNgramModel
  (lang_order: nat) (smoothing: real) (recursive: real)
  (counter_attr: defaultdict) (unigrams_attr: counter) (vocabulary_attr: "char list")
  (child_attr: "LanguageNgramModel option")

text \<open>The loop of \<^verbatim>\<open>fit\<close> over \<^verbatim>\<open>enumerate(corpus[self.order:])\<close>.\<close>

fun lang_fit_loop ::
  "string \<Rightarrow> nat \<Rightarrow> (nat \<times> char) list \<Rightarrow> defaultdict \<times> counter \<times> char set
     \<Rightarrow> defaultdict \<times> counter \<times> char set" where
  "lang_fit_loop corpus ord [] st = st"
| "lang_fit_loop corpus ord ((i, token) # rest) (cnt, uni, voc) =
     lang_fit_loop corpus ord rest
       (dd_increment cnt (take ord (drop i corpus)) token,
        uni(token := uni token + 1),
        insert token voc)"

fun lang_fit :: "nat \<Rightarrow> real \<Rightarrow> real \<Rightarrow> string \<Rightarrow> LanguageNgramModel" where
  "lang_fit ord sm rc corpus =
     (case lang_fit_loop corpus ord (enumerate 0 (drop ord corpus))
             (Map.empty, empty_counter, {}) of
        (cnt, uni, voc) \<Rightarrow>
          LanguageNgramModel ord sm rc cnt uni (sorted_list_of_set voc)
            (if rc > 0 \<and> ord > 0 then Some (lang_fit (ord - 1) sm rc corpus) else None))"

declare lang_fit.simps [simp del]

fun get_counts ::
  "LanguageNgramModel \<Rightarrow> string \<Rightarrow> (error + series) \<times> LanguageNgramModel" where
  "get_counts (LanguageNgramModel ord sm rc cnt uni voc ch) context =
     (case dd_getitem cnt (local_context ord context) of
        (freq_dict, cnt') \<Rightarrow>
          (let freq = map (\<lambda>token. (token, real (freq_dict token) + sm)) voc in
           if rc > 0 \<and> ord > 0 then
             (case ch of
                None \<Rightarrow> (Inl AttributeError, LanguageNgramModel ord sm rc cnt' uni voc None)
              | Some c \<Rightarrow>
                  (case get_counts c context of
                     (Inl e, c') \<Rightarrow>
                       (Inl e, LanguageNgramModel ord sm rc cnt' uni voc (Some c'))
                   | (Inr child_counts, c') \<Rightarrow>
                       (Inr (series_iadd freq (series_scale child_counts rc)),
                        LanguageNgramModel ord sm rc cnt' uni voc (Some c'))))
           else (Inr freq, LanguageNgramModel ord sm rc cnt' uni voc ch)))"

definition lang_predict_proba ::
  "LanguageNgramModel \<Rightarrow> string \<Rightarrow> (error + series) \<times> LanguageNgramModel" where
  "lang_predict_proba m context =
     (case get_counts m context of
        (Inl e, m') \<Rightarrow> (Inl e, m')
      | (Inr counts, m') \<Rightarrow> (Inr (series_div counts (series_sum counts)), m'))"

text \<open>The loop of \<^verbatim>\<open>single_log_proba\<close>; \<open>result\<close> is the accumulator.\<close>

fun lang_single_log_proba_loop ::
  "LanguageNgramModel \<Rightarrow> string \<Rightarrow> string \<Rightarrow> real \<Rightarrow> (error + real) \<times> LanguageNgramModel" where
  "lang_single_log_proba_loop m context [] result = (Inr result, m)"
| "lang_single_log_proba_loop m context (token # rest) result =
     (case lang_predict_proba m context of
        (Inl e, m') \<Rightarrow> (Inl e, m')
      | (Inr proba, m') \<Rightarrow>
          (case series_getitem proba token of
             Inl e \<Rightarrow> (Inl e, m')
           | Inr p \<Rightarrow> lang_single_log_proba_loop m' (context @ [token]) rest (result + ln p)))"

definition lang_single_log_proba ::
  "LanguageNgramModel \<Rightarrow> string \<Rightarrow> string \<Rightarrow> (error + real) \<times> LanguageNgramModel" where
  "lang_single_log_proba m context continuation =
     lang_single_log_proba_loop m context continuation 0"

definition lang_single_proba ::
  "LanguageNgramModel \<Rightarrow> string \<Rightarrow> string \<Rightarrow> (error + real) \<times> LanguageNgramModel" where
  "lang_single_proba m context continuation =
     (case lang_single_log_proba m context continuation of
        (Inl e, m') \<Rightarrow> (Inl e, m')
      | (Inr r, m') \<Rightarrow> (Inr (exp r), m'))"

subsection \<open>MissingLetterModel\<close>

record MissingLetterModel =
  missed_order :: nat
  smoothing_missed :: real
  smoothing_total :: real
  missed_counter_attr :: defaultdict
  total_counter_attr :: defaultdict

text \<open>The inner loop of \<^verbatim>\<open>fit\<close>, over one pair, and the outer loop over the pairs.\<close>

fun missed_fit_pair ::
  "nat \<Rightarrow> string \<Rightarrow> (nat \<times> char \<times> char) list \<Rightarrow> defaultdict \<times> defaultdict
     \<Rightarrow> defaultdict \<times> defaultdict" where
  "missed_fit_pair ord original [] st = st"
| "missed_fit_pair ord original ((i, original_letter, observed_letter) # rest) (mc, tc) =
     (let context = take ord (drop i original) in
      missed_fit_pair ord original rest
        ((if observed_letter = CHR ''-'' then dd_increment mc context original_letter else mc),
         dd_increment tc context original_letter))"

fun missed_fit_loop ::
  "nat \<Rightarrow> (string \<times> string) list \<Rightarrow> defaultdict \<times> defaultdict
     \<Rightarrow> defaultdict \<times> defaultdict" where
  "missed_fit_loop ord [] st = st"
| "missed_fit_loop ord ((original, observed) # rest) st =
     missed_fit_loop ord rest
       (missed_fit_pair ord original
          (enumerate 0 (zip (drop ord original) (drop ord observed))) st)"

definition missed_fit ::
  "nat \<Rightarrow> real \<Rightarrow> real \<Rightarrow> (string \<times> string) list \<Rightarrow> MissingLetterModel" where
  "missed_fit ord sm_missed sm_total sentence_pairs =
     (case missed_fit_loop ord sentence_pairs (Map.empty, Map.empty) of
        (mc, tc) \<Rightarrow>
          \<lparr>missed_order = ord, smoothing_missed = sm_missed, smoothing_total = sm_total,
           missed_counter_attr = mc, total_counter_attr = tc\<rparr>)"

text \<open>Python's float division raises \<^verbatim>\<open>ZeroDivisionError\<close> on a zero divisor.\<close>

definition missed_predict_proba ::
  "MissingLetterModel \<Rightarrow> string \<Rightarrow> char \<Rightarrow> (error + real) \<times> MissingLetterModel" where
  "missed_predict_proba m context last_letter =
     (let local = local_context (missed_order m) context in
      case dd_getitem (missed_counter_attr m) local of
        (missed_dict, mc') \<Rightarrow>
          (case dd_getitem (total_counter_attr m) local of
             (total_dict, tc') \<Rightarrow>
               (let missed_freq = real (missed_dict last_letter) + smoothing_missed m;
                    total_freq = real (total_dict last_letter) + smoothing_total m;
                    m' = m\<lparr>missed_counter_attr := mc', total_counter_attr := tc'\<rparr>
                in if total_freq = 0 then (Inl ZeroDivisionError, m')
                   else (Inr (missed_freq / total_freq), m'))))"

fun missed_single_log_proba_loop ::
  "MissingLetterModel \<Rightarrow> string \<Rightarrow> (char \<times> char) list \<Rightarrow> real
     \<Rightarrow> (error + real) \<times> MissingLetterModel" where
  "missed_single_log_proba_loop m context [] result = (Inr result, m)"
| "missed_single_log_proba_loop m context ((orig_token, act_token) # rest) result =
     (case missed_predict_proba m context orig_token of
        (Inl e, m') \<Rightarrow> (Inl e, m')
      | (Inr pp, m') \<Rightarrow>
          (let pp' = (if act_token = CHR ''-'' then 1 - pp else pp) in
           missed_single_log_proba_loop m' (context @ [orig_token]) rest (result + ln pp')))"

text \<open>\<^verbatim>\<open>if not actual: actual = continuation\<close> holds for \<^verbatim>\<open>None\<close> and for the empty string.\<close>

definition missed_single_log_proba ::
  "MissingLetterModel \<Rightarrow> string \<Rightarrow> string \<Rightarrow> string option
     \<Rightarrow> (error + real) \<times> MissingLetterModel" where
  "missed_single_log_proba m context continuation actual =
     (let actual' = (case actual of None \<Rightarrow> continuation
                     | Some a \<Rightarrow> if a = [] then continuation else a) in
      missed_single_log_proba_loop m context (zip continuation actual') 0)"

definition missed_single_proba ::
  "MissingLetterModel \<Rightarrow> string \<Rightarrow> string \<Rightarrow> string option
     \<Rightarrow> (error + real) \<times> MissingLetterModel" where
  "missed_single_proba m context continuation actual =
     (case missed_single_log_proba m context continuation actual of
        (Inl e, m') \<Rightarrow> (Inl e, m')
      | (Inr r, m') \<Rightarrow> (Inr (exp r), m'))"

subsection \<open>generate_options\<close>

text \<open>
  A hypothesis of the search is the tuple \<^verbatim>\<open>(proba, prefix, suffix, letter, proba_suffix)\<close>.
  The default candidate of \<^verbatim>\<open>noisy_channel\<close> has \<^verbatim>\<open>None\<close> in the fourth place, so a
  candidate carries an optional letter. The cache is a \<^verbatim>\<open>dict\<close> from lengths to costs,
  kept as an association list; \<^verbatim>\<open>if cache:\<close> is false for \<^verbatim>\<open>None\<close> and for the empty dict.
\<close>

type_synonym hypothesis = "real \<times> string \<times> string \<times> string \<times> real"

type_synonym candidate = "real \<times> string \<times> string \<times> string option \<times> real"

type_synonym cache = "(nat \<times> real) list"

definition cache_truthy :: "cache option \<Rightarrow> bool" where
  "cache_truthy cache = (case cache of None \<Rightarrow> False | Some c \<Rightarrow> c \<noteq> [])"

definition cache_getitem :: "cache option \<Rightarrow> nat \<Rightarrow> error + real" where
  "cache_getitem cache k =
     (case cache of
        None \<Rightarrow> Inl KeyError
      | Some c \<Rightarrow> (case map_of c k of None \<Rightarrow> Inl KeyError | Some v \<Rightarrow> Inr v))"

text \<open>
  The first half of the loop body: the branch on \<^verbatim>\<open>letter\<close>. It returns
  \<^verbatim>\<open>(next_letter, new_suffix, new_prefix, proba_missing_state)\<close>; \<^verbatim>\<open>suffix[0]\<close> raises
  \<^verbatim>\<open>IndexError\<close> on the empty suffix. The letters of the loop are the strings of length
  one made of the vocabulary, then the empty string.
\<close>

definition option_branch ::
  "string \<Rightarrow> string \<Rightarrow> string \<Rightarrow> MissingLetterModel
     \<Rightarrow> (error + char \<times> string \<times> string \<times> real) \<times> MissingLetterModel" where
  "option_branch letter prefix suffix mm =
     (case letter of
        c # _ \<Rightarrow>
          (case missed_predict_proba mm prefix c of
             (Inl e, mm') \<Rightarrow> (Inl e, mm')
           | (Inr p, mm') \<Rightarrow> (Inr (c, suffix, prefix @ [c], - ln p), mm'))
      | [] \<Rightarrow>
          (case suffix of
             [] \<Rightarrow> (Inl IndexError, mm)
           | next_letter # new_suffix \<Rightarrow>
               (case missed_predict_proba mm prefix next_letter of
                  (Inl e, mm') \<Rightarrow> (Inl e, mm')
                | (Inr p, mm') \<Rightarrow>
                    (Inr (next_letter, new_suffix, prefix @ [next_letter], - ln (1 - p)), mm'))))"

text \<open>The second half: \<^verbatim>\<open>proba_suffix\<close>, from the cache or from the language model.\<close>

definition option_suffix_cost ::
  "string \<Rightarrow> string \<Rightarrow> LanguageNgramModel \<Rightarrow> real \<Rightarrow> cache option
     \<Rightarrow> (error + real) \<times> LanguageNgramModel" where
  "option_suffix_cost new_prefix new_suffix lm optimism cache =
     (if cache_truthy cache then
        (case cache_getitem cache (length new_suffix) of
           Inl e \<Rightarrow> (Inl e, lm)
         | Inr v \<Rightarrow> (Inr (v * optimism), lm))
      else
        (case lang_single_proba lm new_prefix new_suffix of
           (Inl e, lm') \<Rightarrow> (Inl e, lm')
         | (Inr q, lm') \<Rightarrow> (Inr (- ln q * optimism), lm')))"

fun generate_options_loop ::
  "string list \<Rightarrow> real \<Rightarrow> string \<Rightarrow> string \<Rightarrow> LanguageNgramModel \<Rightarrow> MissingLetterModel
     \<Rightarrow> real \<Rightarrow> cache option \<Rightarrow> hypothesis list
     \<Rightarrow> (error + hypothesis list) \<times> LanguageNgramModel \<times> MissingLetterModel" where
  "generate_options_loop [] prefix_proba prefix suffix lm mm optimism cache options =
     (Inr options, lm, mm)"
| "generate_options_loop (letter # letters) prefix_proba prefix suffix lm mm optimism cache options =
     (case option_branch letter prefix suffix mm of
        (Inl e, mm') \<Rightarrow> (Inl e, lm, mm')
      | (Inr (next_letter, new_suffix, new_prefix, proba_missing_state), mm') \<Rightarrow>
          (case lang_single_proba lm prefix [next_letter] of
             (Inl e, lm') \<Rightarrow> (Inl e, lm', mm')
           | (Inr q, lm') \<Rightarrow>
               (let proba_next_letter = - ln q in
                case option_suffix_cost new_prefix new_suffix lm' optimism cache of
                  (Inl e, lm'') \<Rightarrow> (Inl e, lm'', mm')
                | (Inr proba_suffix, lm'') \<Rightarrow>
                    (let proba = prefix_proba + proba_next_letter + proba_missing_state
                                   + proba_suffix in
                     generate_options_loop letters prefix_proba prefix suffix lm'' mm' optimism
                       cache (options @ [(proba, new_prefix, new_suffix, letter, proba_suffix)])))))"

definition generate_options ::
  "real \<Rightarrow> string \<Rightarrow> string \<Rightarrow> LanguageNgramModel \<Rightarrow> MissingLetterModel \<Rightarrow> real
     \<Rightarrow> cache option
     \<Rightarrow> (error + hypothesis list) \<times> LanguageNgramModel \<times> MissingLetterModel" where
  "generate_options prefix_proba prefix suffix lm mm optimism cache =
     generate_options_loop (map (\<lambda>c. [c]) (vocabulary_attr lm) @ [[]])
       prefix_proba prefix suffix lm mm optimism cache []"

subsection \<open>noisy_channel\<close>

text \<open>The loop that prepares the cache, over \<^verbatim>\<open>range(len(query)+1)\<close>.\<close>

fun cache_loop ::
  "nat list \<Rightarrow> string \<Rightarrow> LanguageNgramModel \<Rightarrow> MissingLetterModel \<Rightarrow> cache
     \<Rightarrow> (error + cache) \<times> LanguageNgramModel \<times> MissingLetterModel" where
  "cache_loop [] query lm mm cache = (Inr cache, lm, mm)"
| "cache_loop (i # rest) query lm mm cache =
     (let future_suffix = take i query in
      case lang_single_log_proba lm [] future_suffix of
        (Inl e, lm') \<Rightarrow> (Inl e, lm', mm)
      | (Inr a, lm') \<Rightarrow>
          (case missed_single_log_proba mm [] future_suffix None of
             (Inl e, mm') \<Rightarrow> (Inl e, lm', mm')
           | (Inr b, mm') \<Rightarrow>
               cache_loop rest query lm' mm'
                 (AList.update (length future_suffix) (- a + - b) cache)))"

text \<open>\<^verbatim>\<open>heappush\<close> and the loop that pushes the options within the bound.\<close>

definition heappush :: "hypothesis list \<Rightarrow> hypothesis \<Rightarrow> hypothesis list" where
  "heappush heap item = insort item heap"

fun push_options ::
  "hypothesis list \<Rightarrow> real \<Rightarrow> real \<Rightarrow> hypothesis list \<Rightarrow> hypothesis list" where
  "push_options [] best_logprob freedom heap = heap"
| "push_options (new_option # rest) best_logprob freedom heap =
     push_options rest best_logprob freedom
       (if fst new_option < best_logprob + freedom then heappush heap new_option else heap)"

definition as_candidate :: "hypothesis \<Rightarrow> candidate" where
  "as_candidate h = (case h of (p, pre, suf, letter, ps) \<Rightarrow> (p, pre, suf, Some letter, ps))"

text \<open>
  The main loop, \<^verbatim>\<open>for i in range(max_attempts)\<close>. It returns the heap, the candidates
  and \<^verbatim>\<open>best_logprob\<close> as they stand when the loop ends.
\<close>

fun noisy_channel_loop ::
  "nat \<Rightarrow> hypothesis list \<Rightarrow> candidate list \<Rightarrow> real \<Rightarrow> LanguageNgramModel
     \<Rightarrow> MissingLetterModel \<Rightarrow> real \<Rightarrow> real \<Rightarrow> cache
     \<Rightarrow> (error + hypothesis list \<times> candidate list \<times> real)
          \<times> LanguageNgramModel \<times> MissingLetterModel" where
  "noisy_channel_loop 0 heap candidates best_logprob lm mm freedom optimism cache =
     (Inr (heap, candidates, best_logprob), lm, mm)"
| "noisy_channel_loop (Suc n) heap candidates best_logprob lm mm freedom optimism cache =
     (case heap of
        [] \<Rightarrow> (Inr (heap, candidates, best_logprob), lm, mm)
      | next_best # heap' \<Rightarrow>
          (case next_best of
             (score, prefix, suffix, letter, proba_suffix) \<Rightarrow>
               if suffix = [] then
                 (if score \<le> best_logprob + freedom then
                    noisy_channel_loop n heap' (candidates @ [as_candidate next_best])
                      (if score < best_logprob then score else best_logprob)
                      lm mm freedom optimism cache
                  else
                    noisy_channel_loop n heap' candidates best_logprob lm mm freedom optimism
                      cache)
               else
                 (let prefix_proba = score - proba_suffix in
                  case generate_options prefix_proba prefix suffix lm mm optimism (Some cache) of
                    (Inl e, lm', mm') \<Rightarrow> (Inl e, lm', mm')
                  | (Inr new_options, lm', mm') \<Rightarrow>
                      noisy_channel_loop n (push_options new_options best_logprob freedom heap')
                        candidates best_logprob lm' mm' freedom optimism cache)))"

text \<open>The loop that fills \<^verbatim>\<open>result\<close>; the key is \<^verbatim>\<open>candidate[1][1:-1]\<close>.\<close>

fun collect_result ::
  "candidate list \<Rightarrow> real \<Rightarrow> real \<Rightarrow> (string \<times> real) list \<Rightarrow> (string \<times> real) list" where
  "collect_result [] best_logprob freedom result = result"
| "collect_result (candidate # rest) best_logprob freedom result =
     collect_result rest best_logprob freedom
       (if fst candidate \<le> best_logprob + freedom
        then AList.update (butlast (tl (fst (snd candidate)))) (fst candidate) result
        else result)"

text \<open>
  \<^verbatim>\<open>noisy_channel(word, lang_model, missed_model, freedom, max_attempts, optimism)\<close>;
  the printing under \<^verbatim>\<open>verbose\<close> computes nothing and is left out. The result is the
  \<^verbatim>\<open>dict\<close> from phrases to scores, in insertion order.
\<close>

definition noisy_channel ::
  "string \<Rightarrow> LanguageNgramModel \<Rightarrow> MissingLetterModel \<Rightarrow> real \<Rightarrow> nat \<Rightarrow> real
     \<Rightarrow> (error + (string \<times> real) list) \<times> LanguageNgramModel \<times> MissingLetterModel" where
  "noisy_channel word lm mm freedom max_attempts optimism =
     (let query = word @ '' ''; prefix = '' ''; suffix = query in
      case lang_single_log_proba lm prefix query of
        (Inl e, lm1) \<Rightarrow> (Inl e, lm1, mm)
      | (Inr a, lm1) \<Rightarrow>
          (let full_origin_logprob = - a in
           case missed_single_log_proba mm prefix query None of
             (Inl e, mm1) \<Rightarrow> (Inl e, lm1, mm1)
           | (Inr b, mm1) \<Rightarrow>
               (let no_missing_logprob = - b;
                    best_logprob = full_origin_logprob + no_missing_logprob;
                    heap = [(best_logprob * optimism, prefix, suffix, [], best_logprob * optimism)];
                    candidates = [(best_logprob, prefix @ query, [], None, 0)]
                in case cache_loop [0..<length query + 1] query lm1 mm1 [] of
                     (Inl e, lm2, mm2) \<Rightarrow> (Inl e, lm2, mm2)
                   | (Inr cache, lm2, mm2) \<Rightarrow>
                       (case noisy_channel_loop max_attempts heap candidates best_logprob
                               lm2 mm2 freedom optimism cache of
                          (Inl e, lm3, mm3) \<Rightarrow> (Inl e, lm3, mm3)
                        | (Inr (heap', candidates', best_logprob'), lm3, mm3) \<Rightarrow>
                            (Inr (collect_result candidates' best_logprob' freedom []),
                             lm3, mm3)))))"

text \<open>
  The local variables of \<^verbatim>\<open>noisy_channel\<close> when its main loop ends: the score of the
  query itself, with which \<^verbatim>\<open>best_logprob\<close> starts, then \<^verbatim>\<open>heap\<close>, \<^verbatim>\<open>candidates\<close> and
  \<^verbatim>\<open>best_logprob\<close>. This is the body of \<^verbatim>\<open>noisy_channel\<close> up to the loop that fills
  \<^verbatim>\<open>result\<close>; lemma \<open>noisy_channel_of_locals\<close> proves that \<^verbatim>\<open>noisy_channel\<close> returns
  \<open>collect_result\<close> of these candidates and this \<^verbatim>\<open>best_logprob\<close>.
\<close>

definition noisy_channel_locals ::
  "string \<Rightarrow> LanguageNgramModel \<Rightarrow> MissingLetterModel \<Rightarrow> real \<Rightarrow> nat \<Rightarrow> real
     \<Rightarrow> (error + real \<times> hypothesis list \<times> candidate list \<times> real)
          \<times> LanguageNgramModel \<times> MissingLetterModel" where
  "noisy_channel_locals word lm mm freedom max_attempts optimism =
     (let query = word @ '' ''; prefix = '' ''; suffix = query in
      case lang_single_log_proba lm prefix query of
        (Inl e, lm1) \<Rightarrow> (Inl e, lm1, mm)
      | (Inr a, lm1) \<Rightarrow>
          (let full_origin_logprob = - a in
           case missed_single_log_proba mm prefix query None of
             (Inl e, mm1) \<Rightarrow> (Inl e, lm1, mm1)
           | (Inr b, mm1) \<Rightarrow>
               (let no_missing_logprob = - b;
                    best_logprob = full_origin_logprob + no_missing_logprob;
                    heap = [(best_logprob * optimism, prefix, suffix, [], best_logprob * optimism)];
                    candidates = [(best_logprob, prefix @ query, [], None, 0)]
                in case cache_loop [0..<length query + 1] query lm1 mm1 [] of
                     (Inl e, lm2, mm2) \<Rightarrow> (Inl e, lm2, mm2)
                   | (Inr cache, lm2, mm2) \<Rightarrow>
                       (case noisy_channel_loop max_attempts heap candidates best_logprob
                               lm2 mm2 freedom optimism cache of
                          (Inl e, lm3, mm3) \<Rightarrow> (Inl e, lm3, mm3)
                        | (Inr (heap', candidates', best_logprob'), lm3, mm3) \<Rightarrow>
                            (Inr (full_origin_logprob + no_missing_logprob, heap', candidates',
                                  best_logprob'),
                             lm3, mm3)))))"

subsection \<open>What the methods compute, apart from the tables they touch\<close>

text \<open>
  The definitions of this subsection are not in the source. For each method above they
  give the value it returns as a function of the model it is given, read only
  (\<open>dd_lookup\<close> reads a table and stores nothing), and the relation between a model and
  the same model after reads (\<open>lang_grown\<close>, \<open>missed_grown\<close>): the parameters, the
  vocabulary and the unigram counts are the same and each table has gained at most
  fresh empty counters under contexts it did not have. The lemmas of the next section
  prove that each method returns this value and leaves a grown model.
\<close>

definition dd_lookup :: "defaultdict \<Rightarrow> string \<Rightarrow> counter" where
  "dd_lookup d k = (case d k of None \<Rightarrow> empty_counter | Some c \<Rightarrow> c)"

definition dd_grown :: "defaultdict \<Rightarrow> defaultdict \<Rightarrow> bool" where
  "dd_grown d d' = (\<forall>k. d' k = d k \<or> (d k = None \<and> d' k = Some empty_counter))"

fun lang_grown :: "LanguageNgramModel \<Rightarrow> LanguageNgramModel \<Rightarrow> bool" where
  "lang_grown (LanguageNgramModel ord sm rc cnt uni voc ch) m' =
     (lang_order m' = ord \<and> smoothing m' = sm \<and> recursive m' = rc \<and>
      unigrams_attr m' = uni \<and> vocabulary_attr m' = voc \<and>
      dd_grown cnt (counter_attr m') \<and>
      (case ch of
         None \<Rightarrow> child_attr m' = None
       | Some c \<Rightarrow> (case child_attr m' of None \<Rightarrow> False | Some c' \<Rightarrow> lang_grown c c')))"

fun lang_counts :: "LanguageNgramModel \<Rightarrow> string \<Rightarrow> error + series" where
  "lang_counts (LanguageNgramModel ord sm rc cnt uni voc ch) context =
     (let freq = map (\<lambda>token. (token, real (dd_lookup cnt (local_context ord context) token) + sm)) voc in
      if rc > 0 \<and> ord > 0 then
        (case ch of
           None \<Rightarrow> Inl AttributeError
         | Some c \<Rightarrow>
             (case lang_counts c context of
                Inl e \<Rightarrow> Inl e
              | Inr child_counts \<Rightarrow> Inr (series_iadd freq (series_scale child_counts rc))))
      else Inr freq)"

definition lang_probs :: "LanguageNgramModel \<Rightarrow> string \<Rightarrow> error + series" where
  "lang_probs m context =
     (case lang_counts m context of
        Inl e \<Rightarrow> Inl e
      | Inr counts \<Rightarrow> Inr (series_div counts (series_sum counts)))"

fun lang_wf :: "LanguageNgramModel \<Rightarrow> bool" where
  "lang_wf (LanguageNgramModel ord sm rc cnt uni voc ch) =
     (if rc > 0 \<and> ord > 0 then
        (case ch of
           None \<Rightarrow> False
         | Some c \<Rightarrow> lang_wf c \<and> set voc \<subseteq> set (vocabulary_attr c) \<and>
                     smoothing c = sm \<and> recursive c = rc)
      else True)"

definition series_pos :: "series \<Rightarrow> bool" where
  "series_pos s = list_all (\<lambda>v. 0 < v) (map snd s)"

fun lang_slp :: "LanguageNgramModel \<Rightarrow> string \<Rightarrow> string \<Rightarrow> real \<Rightarrow> error + real" where
  "lang_slp m context [] result = Inr result"
| "lang_slp m context (token # rest) result =
     (case lang_probs m context of
        Inl e \<Rightarrow> Inl e
      | Inr proba \<Rightarrow>
          (case series_getitem proba token of
             Inl e \<Rightarrow> Inl e
           | Inr p \<Rightarrow> lang_slp m (context @ [token]) rest (result + ln p)))"

definition missed_grown :: "MissingLetterModel \<Rightarrow> MissingLetterModel \<Rightarrow> bool" where
  "missed_grown m m' =
     (missed_order m' = missed_order m \<and> smoothing_missed m' = smoothing_missed m \<and>
      smoothing_total m' = smoothing_total m \<and>
      dd_grown (missed_counter_attr m) (missed_counter_attr m') \<and>
      dd_grown (total_counter_attr m) (total_counter_attr m'))"

definition missed_proba :: "MissingLetterModel \<Rightarrow> string \<Rightarrow> char \<Rightarrow> error + real" where
  "missed_proba m context last_letter =
     (let local = local_context (missed_order m) context;
          missed_freq = real (dd_lookup (missed_counter_attr m) local last_letter) + smoothing_missed m;
          total_freq = real (dd_lookup (total_counter_attr m) local last_letter) + smoothing_total m
      in if total_freq = 0 then Inl ZeroDivisionError else Inr (missed_freq / total_freq))"

fun missed_slp ::
  "MissingLetterModel \<Rightarrow> string \<Rightarrow> (char \<times> char) list \<Rightarrow> real \<Rightarrow> error + real" where
  "missed_slp m context [] result = Inr result"
| "missed_slp m context ((orig_token, act_token) # rest) result =
     (case missed_proba m context orig_token of
        Inl e \<Rightarrow> Inl e
      | Inr pp \<Rightarrow>
          missed_slp m (context @ [orig_token]) rest
            (result + ln (if act_token = CHR ''-'' then 1 - pp else pp)))"

definition lang_sp :: "LanguageNgramModel \<Rightarrow> string \<Rightarrow> string \<Rightarrow> error + real" where
  "lang_sp m context continuation =
     (case lang_slp m context continuation 0 of Inl e \<Rightarrow> Inl e | Inr r \<Rightarrow> Inr (exp r))"

definition option_branch_value ::
  "string \<Rightarrow> string \<Rightarrow> string \<Rightarrow> MissingLetterModel \<Rightarrow> error + char \<times> string \<times> string \<times> real" where
  "option_branch_value letter prefix suffix mm =
     (case letter of
        c # _ \<Rightarrow>
          (case missed_proba mm prefix c of
             Inl e \<Rightarrow> Inl e
           | Inr p \<Rightarrow> Inr (c, suffix, prefix @ [c], - ln p))
      | [] \<Rightarrow>
          (case suffix of
             [] \<Rightarrow> Inl IndexError
           | next_letter # new_suffix \<Rightarrow>
               (case missed_proba mm prefix next_letter of
                  Inl e \<Rightarrow> Inl e
                | Inr p \<Rightarrow> Inr (next_letter, new_suffix, prefix @ [next_letter], - ln (1 - p)))))"

definition option_suffix_cost_value ::
  "string \<Rightarrow> string \<Rightarrow> LanguageNgramModel \<Rightarrow> real \<Rightarrow> cache option \<Rightarrow> error + real" where
  "option_suffix_cost_value new_prefix new_suffix lm optimism cache =
     (if cache_truthy cache then
        (case cache_getitem cache (length new_suffix) of
           Inl e \<Rightarrow> Inl e
         | Inr v \<Rightarrow> Inr (v * optimism))
      else
        (case lang_sp lm new_prefix new_suffix of
           Inl e \<Rightarrow> Inl e
         | Inr q \<Rightarrow> Inr (- ln q * optimism)))"

definition option_value ::
  "string \<Rightarrow> real \<Rightarrow> string \<Rightarrow> string \<Rightarrow> LanguageNgramModel \<Rightarrow> MissingLetterModel
     \<Rightarrow> real \<Rightarrow> cache option \<Rightarrow> error + hypothesis" where
  "option_value letter prefix_proba prefix suffix lm mm optimism cache =
     (case option_branch_value letter prefix suffix mm of
        Inl e \<Rightarrow> Inl e
      | Inr (next_letter, new_suffix, new_prefix, proba_missing_state) \<Rightarrow>
          (case lang_sp lm prefix [next_letter] of
             Inl e \<Rightarrow> Inl e
           | Inr q \<Rightarrow>
               (case option_suffix_cost_value new_prefix new_suffix lm optimism cache of
                  Inl e \<Rightarrow> Inl e
                | Inr proba_suffix \<Rightarrow>
                    Inr (prefix_proba + - ln q + proba_missing_state + proba_suffix,
                         new_prefix, new_suffix, letter, proba_suffix))))"

fun options_value ::
  "string list \<Rightarrow> real \<Rightarrow> string \<Rightarrow> string \<Rightarrow> LanguageNgramModel \<Rightarrow> MissingLetterModel
     \<Rightarrow> real \<Rightarrow> cache option \<Rightarrow> hypothesis list \<Rightarrow> error + hypothesis list" where
  "options_value [] prefix_proba prefix suffix lm mm optimism cache options = Inr options"
| "options_value (letter # letters) prefix_proba prefix suffix lm mm optimism cache options =
     (case option_value letter prefix_proba prefix suffix lm mm optimism cache of
        Inl e \<Rightarrow> Inl e
      | Inr h \<Rightarrow>
          options_value letters prefix_proba prefix suffix lm mm optimism cache (options @ [h]))"

definition generate_options_value ::
  "real \<Rightarrow> string \<Rightarrow> string \<Rightarrow> LanguageNgramModel \<Rightarrow> MissingLetterModel \<Rightarrow> real
     \<Rightarrow> cache option \<Rightarrow> error + hypothesis list" where
  "generate_options_value prefix_proba prefix suffix lm mm optimism cache =
     options_value (map (\<lambda>c. [c]) (vocabulary_attr lm) @ [[]])
       prefix_proba prefix suffix lm mm optimism cache []"

definition missed_slp_none :: "MissingLetterModel \<Rightarrow> string \<Rightarrow> string \<Rightarrow> error + real" where
  "missed_slp_none mm context continuation = missed_slp mm context (zip continuation continuation) 0"

fun cache_value ::
  "nat list \<Rightarrow> string \<Rightarrow> LanguageNgramModel \<Rightarrow> MissingLetterModel \<Rightarrow> cache \<Rightarrow> error + cache" where
  "cache_value [] query lm mm cache = Inr cache"
| "cache_value (i # rest) query lm mm cache =
     (let future_suffix = take i query in
      case lang_slp lm [] future_suffix 0 of
        Inl e \<Rightarrow> Inl e
      | Inr a \<Rightarrow>
          (case missed_slp_none mm [] future_suffix of
             Inl e \<Rightarrow> Inl e
           | Inr b \<Rightarrow>
               cache_value rest query lm mm (AList.update (length future_suffix) (- a + - b) cache)))"

fun loop_value ::
  "nat \<Rightarrow> hypothesis list \<Rightarrow> candidate list \<Rightarrow> real \<Rightarrow> LanguageNgramModel
     \<Rightarrow> MissingLetterModel \<Rightarrow> real \<Rightarrow> real \<Rightarrow> cache
     \<Rightarrow> error + hypothesis list \<times> candidate list \<times> real" where
  "loop_value 0 heap candidates best_logprob lm mm freedom optimism cache =
     Inr (heap, candidates, best_logprob)"
| "loop_value (Suc n) heap candidates best_logprob lm mm freedom optimism cache =
     (case heap of
        [] \<Rightarrow> Inr (heap, candidates, best_logprob)
      | next_best # heap' \<Rightarrow>
          (case next_best of
             (score, prefix, suffix, letter, proba_suffix) \<Rightarrow>
               if suffix = [] then
                 (if score \<le> best_logprob + freedom then
                    loop_value n heap' (candidates @ [as_candidate next_best])
                      (if score < best_logprob then score else best_logprob)
                      lm mm freedom optimism cache
                  else
                    loop_value n heap' candidates best_logprob lm mm freedom optimism cache)
               else
                 (case generate_options_value (score - proba_suffix) prefix suffix lm mm optimism
                         (Some cache) of
                    Inl e \<Rightarrow> Inl e
                  | Inr new_options \<Rightarrow>
                      loop_value n (push_options new_options best_logprob freedom heap')
                        candidates best_logprob lm mm freedom optimism cache)))"

definition noisy_channel_value ::
  "string \<Rightarrow> LanguageNgramModel \<Rightarrow> MissingLetterModel \<Rightarrow> real \<Rightarrow> nat \<Rightarrow> real
     \<Rightarrow> error + (string \<times> real) list" where
  "noisy_channel_value word lm mm freedom max_attempts optimism =
     (let query = word @ '' '' in
      case lang_slp lm '' '' query 0 of
        Inl e \<Rightarrow> Inl e
      | Inr a \<Rightarrow>
          (case missed_slp_none mm '' '' query of
             Inl e \<Rightarrow> Inl e
           | Inr b \<Rightarrow>
               (let best_logprob = - a + - b in
                case cache_value [0..<length query + 1] query lm mm [] of
                  Inl e \<Rightarrow> Inl e
                | Inr cache \<Rightarrow>
                    (case loop_value max_attempts
                            [(best_logprob * optimism, '' '', query, [], best_logprob * optimism)]
                            [(best_logprob, '' '' @ query, [], None, 0)]
                            best_logprob lm mm freedom optimism cache of
                       Inl e \<Rightarrow> Inl e
                     | Inr (heap', candidates', best_logprob') \<Rightarrow>
                         Inr (collect_result candidates' best_logprob' freedom [])))))"

definition missed_le_total :: "defaultdict \<times> defaultdict \<Rightarrow> bool" where
  "missed_le_total st = (\<forall>k c. dd_lookup (fst st) k c \<le> dd_lookup (snd st) k c)"




definition locals_value ::
  "string \<Rightarrow> LanguageNgramModel \<Rightarrow> MissingLetterModel \<Rightarrow> real \<Rightarrow> nat \<Rightarrow> real
     \<Rightarrow> error + real \<times> hypothesis list \<times> candidate list \<times> real" where
  "locals_value word lm mm freedom max_attempts optimism =
     (let query = word @ '' '' in
      case lang_slp lm '' '' query 0 of
        Inl e \<Rightarrow> Inl e
      | Inr a \<Rightarrow>
          (case missed_slp_none mm '' '' query of
             Inl e \<Rightarrow> Inl e
           | Inr b \<Rightarrow>
               (let best_logprob = - a + - b in
                case cache_value [0..<length query + 1] query lm mm [] of
                  Inl e \<Rightarrow> Inl e
                | Inr cache \<Rightarrow>
                    (case loop_value max_attempts
                            [(best_logprob * optimism, '' '', query, [], best_logprob * optimism)]
                            [(best_logprob, '' '' @ query, [], None, 0)]
                            best_logprob lm mm freedom optimism cache of
                       Inl e \<Rightarrow> Inl e
                     | Inr (heap', candidates', best_logprob') \<Rightarrow>
                         Inr (best_logprob, heap', candidates', best_logprob')))))"

section \<open>Lemmas\<close>

lemma dd_getitem_fst: "fst (dd_getitem d k) = dd_lookup d k"
  by (simp add: dd_getitem_def dd_lookup_def split: option.splits)

lemma dd_getitem_grown: "dd_grown d (snd (dd_getitem d k))"
  by (simp add: dd_getitem_def dd_grown_def split: option.splits)

lemma dd_grown_refl: "dd_grown d d"
  by (simp add: dd_grown_def)

lemma dd_grown_trans: "dd_grown a b \<Longrightarrow> dd_grown b c \<Longrightarrow> dd_grown a c"
  unfolding dd_grown_def by metis

lemma dd_grown_lookup: "dd_grown d d' \<Longrightarrow> dd_lookup d' k = dd_lookup d k"
  unfolding dd_grown_def dd_lookup_def
  by (metis option.simps(4) option.simps(5))

lemma lang_grown_refl: "lang_grown m m"
  by (induction m) (auto simp: dd_grown_refl split: option.splits)

lemma lang_grown_fields:
  "lang_grown m m' \<Longrightarrow>
     lang_order m' = lang_order m \<and> smoothing m' = smoothing m \<and> recursive m' = recursive m \<and>
     unigrams_attr m' = unigrams_attr m \<and> vocabulary_attr m' = vocabulary_attr m \<and>
     dd_grown (counter_attr m) (counter_attr m')"
  by (cases m) simp

lemma lang_grown_trans: "lang_grown a b \<Longrightarrow> lang_grown b c \<Longrightarrow> lang_grown a c"
proof (induction a arbitrary: b c)
  case (LanguageNgramModel ord sm rc cnt uni voc ch)
  obtain ord2 sm2 rc2 cnt2 uni2 voc2 ch2 where b: "b = LanguageNgramModel ord2 sm2 rc2 cnt2 uni2 voc2 ch2"
    by (cases b)
  obtain ord3 sm3 rc3 cnt3 uni3 voc3 ch3 where c: "c = LanguageNgramModel ord3 sm3 rc3 cnt3 uni3 voc3 ch3"
    by (cases c)
  from LanguageNgramModel.prems show ?case
    unfolding b c
    by (auto intro: dd_grown_trans LanguageNgramModel.IH split: option.splits)
qed

lemma get_counts_fst: "fst (get_counts m ctx) = lang_counts m ctx"
proof (induction m)
  case (LanguageNgramModel ord sm rc cnt uni voc ch)
  show ?case
  proof (cases ch)
    case None
    then show ?thesis
      by (simp add: dd_getitem_fst[symmetric] Let_def split: prod.splits)
  next
    case (Some c)
    have IH: "fst (get_counts c ctx) = lang_counts c ctx"
      using LanguageNgramModel.IH Some by simp
    show ?thesis
      using IH Some
      by (cases "get_counts c ctx")
         (auto simp: dd_getitem_fst[symmetric] Let_def split: prod.splits sum.splits)
  qed
qed

lemma get_counts_grown: "lang_grown m (snd (get_counts m ctx))"
proof (induction m)
  case (LanguageNgramModel ord sm rc cnt uni voc ch)
  have g: "dd_grown cnt (snd (dd_getitem cnt (local_context ord ctx)))"
    by (rule dd_getitem_grown)
  show ?case
  proof (cases ch)
    case None
    then show ?thesis
      using g by (auto simp: Let_def split: prod.splits)
  next
    case (Some c)
    have IH: "lang_grown c (snd (get_counts c ctx))"
      using LanguageNgramModel.IH Some by simp
    show ?thesis
      using IH Some g
      by (cases "get_counts c ctx")
         (auto simp: Let_def lang_grown_refl split: prod.splits sum.splits)
  qed
qed

lemma lang_counts_grown: "lang_grown m m' \<Longrightarrow> lang_counts m' ctx = lang_counts m ctx"
proof (induction m arbitrary: m')
  case (LanguageNgramModel ord sm rc cnt uni voc ch)
  obtain ord2 sm2 rc2 cnt2 uni2 voc2 ch2 where b: "m' = LanguageNgramModel ord2 sm2 rc2 cnt2 uni2 voc2 ch2"
    by (cases m')
  have f: "ord2 = ord" "sm2 = sm" "rc2 = rc" "voc2 = voc" "dd_grown cnt cnt2"
    using LanguageNgramModel.prems b by simp_all
  show ?case
  proof (cases ch)
    case None
    then have "ch2 = None" using LanguageNgramModel.prems b by simp
    then show ?thesis using None f b by (simp add: dd_grown_lookup Let_def)
  next
    case (Some c)
    then obtain c2 where c2: "ch2 = Some c2" "lang_grown c c2"
      using LanguageNgramModel.prems b by (auto split: option.splits)
    have "lang_counts c2 ctx = lang_counts c ctx"
      using LanguageNgramModel.IH Some c2 by simp
    then show ?thesis using Some c2 f b by (simp add: dd_grown_lookup Let_def)
  qed
qed

lemma lang_fit_loop_voc:
  "snd (snd (lang_fit_loop corpus ord xs st)) = snd (snd st) \<union> snd ` set xs"
  by (induction corpus ord xs st rule: lang_fit_loop.induct) auto

lemma lang_fit_fields:
  "lang_order (lang_fit ord sm rc corpus) = ord"
  "smoothing (lang_fit ord sm rc corpus) = sm"
  "recursive (lang_fit ord sm rc corpus) = rc"
  "child_attr (lang_fit ord sm rc corpus) =
     (if rc > 0 \<and> ord > 0 then Some (lang_fit (ord - 1) sm rc corpus) else None)"
  by (simp_all add: lang_fit.simps[of ord] split: prod.splits)

lemma lang_fit_vocabulary:
  "vocabulary_attr (lang_fit ord sm rc corpus) = sort (remdups (drop ord corpus))"
proof -
  have "snd (snd (lang_fit_loop corpus ord (enumerate 0 (drop ord corpus))
             (Map.empty, empty_counter, {}))) = set (drop ord corpus)"
    by (simp add: lang_fit_loop_voc set_map[symmetric] del: set_map)
  then show ?thesis
    by (cases "lang_fit_loop corpus ord (enumerate 0 (drop ord corpus)) (Map.empty, empty_counter, {})")
       (simp add: lang_fit.simps[of ord] sorted_list_of_set_sort_remdups)
qed

lemma lang_fit_counter:
  "counter_attr (lang_fit ord sm rc corpus) =
     fst (lang_fit_loop corpus ord (enumerate 0 (drop ord corpus)) (Map.empty, empty_counter, {}))"
  by (simp add: lang_fit.simps[of ord] split: prod.splits)

lemma lang_fit_wf: "lang_wf (lang_fit ord sm rc corpus)"
proof (induction ord)
  case 0
  show ?case
    using lang_fit_fields(1)[of 0 sm rc corpus]
    by (cases "lang_fit 0 sm rc corpus") simp
next
  case (Suc n)
  obtain o2 s2 r2 cnt uni voc ch where m: "lang_fit (Suc n) sm rc corpus = LanguageNgramModel o2 s2 r2 cnt uni voc ch"
    by (cases "lang_fit (Suc n) sm rc corpus")
  have f: "o2 = Suc n" "s2 = sm" "r2 = rc" "voc = sort (remdups (drop (Suc n) corpus))"
      "ch = (if rc > 0 then Some (lang_fit n sm rc corpus) else None)"
    using lang_fit_fields[of "Suc n" sm rc corpus] lang_fit_vocabulary[of "Suc n" sm rc corpus] m
    by simp_all
  have sub: "set (drop (Suc n) corpus) \<subseteq> set (drop n corpus)"
    by (metis drop_Suc set_drop_subset tl_drop drop_drop plus_1_eq_Suc set_drop_subset_set_drop le_add2)
  show ?case
    unfolding m using f Suc sub
    by (simp add: lang_fit_vocabulary lang_fit_fields)
qed

lemma lang_wf_grown: "lang_grown m m' \<Longrightarrow> lang_wf m \<Longrightarrow> lang_wf m'"
proof (induction m arbitrary: m')
  case (LanguageNgramModel ord sm rc cnt uni voc ch)
  obtain ord2 sm2 rc2 cnt2 uni2 voc2 ch2 where b: "m' = LanguageNgramModel ord2 sm2 rc2 cnt2 uni2 voc2 ch2"
    by (cases m')
  have f: "ord2 = ord" "sm2 = sm" "rc2 = rc" "voc2 = voc"
    using LanguageNgramModel.prems b by simp_all
  show ?case
  proof (cases "rc > 0 \<and> ord > 0")
    case False
    then show ?thesis using b f by auto
  next
    case True
    then obtain c where c: "ch = Some c" "lang_wf c" "set voc \<subseteq> set (vocabulary_attr c)"
          "smoothing c = sm" "recursive c = rc"
      using LanguageNgramModel.prems(2) by (auto split: option.splits)
    then obtain c2 where c2: "ch2 = Some c2" "lang_grown c c2"
      using LanguageNgramModel.prems(1) b by (auto split: option.splits)
    have "lang_wf c2" using LanguageNgramModel.IH c c2 by simp
    then show ?thesis
      using True b f c c2 lang_grown_fields[OF c2(2)] by simp
  qed
qed

lemma series_iadd_labels: "map fst (series_iadd s other) = map fst s"
  by (simp add: series_iadd_def case_prod_unfold comp_def)

lemma series_scale_labels: "map fst (series_scale s x) = map fst s"
  by (simp add: series_scale_def case_prod_unfold comp_def)

lemma series_div_labels: "map fst (series_div s x) = map fst s"
  by (simp add: series_div_def case_prod_unfold comp_def)

lemma series_pos_iff: "series_pos s \<longleftrightarrow> (\<forall>t v. (t, v) \<in> set s \<longrightarrow> 0 < v)"
  by (auto simp: series_pos_def list_all_iff)

lemma series_scale_pos: "series_pos s \<Longrightarrow> 0 < x \<Longrightarrow> series_pos (series_scale s x)"
  by (auto simp: series_pos_iff series_scale_def)

lemma series_iadd_pos: "series_pos s \<Longrightarrow> series_pos other \<Longrightarrow> series_pos (series_iadd s other)"
  unfolding series_pos_iff series_iadd_def
  by (auto split: option.splits dest!: map_of_SomeD) (meson add_pos_pos)

lemma series_sum_pos: "series_pos s \<Longrightarrow> s \<noteq> [] \<Longrightarrow> 0 < series_sum s"
proof -
  assume p: "series_pos s" and ne: "s \<noteq> []"
  obtain a rest where s: "s = a # rest" using ne by (cases s) auto
  have "0 < snd a" using p s by (simp add: series_pos_def)
  moreover have "0 \<le> sum_list (map snd rest)"
    using p s by (intro sum_list_nonneg) (auto simp: series_pos_def list_all_iff less_imp_le)
  ultimately show ?thesis using s by (simp add: series_sum_def add_pos_nonneg)
qed

lemma series_div_pos: "series_pos s \<Longrightarrow> 0 < x \<Longrightarrow> series_pos (series_div s x)"
  by (auto simp: series_pos_iff series_div_def)

lemma series_div_sum: "series_sum (series_div s x) = series_sum s / x"
  unfolding series_sum_def series_div_def
  by (induction s) (auto simp: add_divide_distrib)

lemma lang_counts_wf:
  "lang_wf m \<Longrightarrow> \<exists>s. lang_counts m ctx = Inr s \<and> map fst s = vocabulary_attr m"
proof (induction m)
  case (LanguageNgramModel ord sm rc cnt uni voc ch)
  show ?case
  proof (cases "rc > 0 \<and> ord > 0")
    case False
    then show ?thesis by (auto simp: Let_def comp_def)
  next
    case True
    then obtain c where c: "ch = Some c" "lang_wf c"
      using LanguageNgramModel.prems by (auto split: option.splits)
    then obtain s where s: "lang_counts c ctx = Inr s"
      using LanguageNgramModel.IH by fastforce
    show ?thesis using True c s by (simp add: Let_def series_iadd_labels comp_def)
  qed
qed

lemma lang_counts_pos:
  "lang_wf m \<Longrightarrow> 0 < smoothing m \<Longrightarrow> lang_counts m ctx = Inr s \<Longrightarrow> series_pos s"
proof (induction m arbitrary: s)
  case (LanguageNgramModel ord sm rc cnt uni voc ch)
  have sm: "0 < sm" using LanguageNgramModel.prems(2) by simp
  have base: "series_pos (map (\<lambda>token. (token, real (dd_lookup cnt (local_context ord ctx) token) + sm)) voc)"
    using sm by (auto simp: series_pos_iff intro: add_nonneg_pos)
  show ?case
  proof (cases "rc > 0 \<and> ord > 0")
    case False
    then show ?thesis using base LanguageNgramModel.prems(3) by (auto simp: Let_def)
  next
    case True
    then obtain c where c: "ch = Some c" "lang_wf c" "smoothing c = sm"
      using LanguageNgramModel.prems(1) by (auto split: option.splits)
    then obtain cs where cs: "lang_counts c ctx = Inr cs"
      using lang_counts_wf by blast
    have "series_pos cs"
      using LanguageNgramModel.IH[of c cs] c cs sm by simp
    then have "series_pos (series_scale cs rc)"
      using True by (simp add: series_scale_pos)
    then show ?thesis
      using True c cs base LanguageNgramModel.prems(3) by (auto simp: Let_def series_iadd_pos)
  qed
qed

lemma lang_probs_wf:
  assumes "lang_wf m" "0 < smoothing m" "vocabulary_attr m \<noteq> []"
  shows "\<exists>pr. lang_probs m ctx = Inr pr \<and> map fst pr = vocabulary_attr m \<and>
              series_pos pr \<and> series_sum pr = 1"
proof -
  obtain s where s: "lang_counts m ctx = Inr s" "map fst s = vocabulary_attr m"
    using lang_counts_wf[OF assms(1)] by blast
  have pos: "series_pos s" using lang_counts_pos[OF assms(1,2) s(1)] .
  have ne: "s \<noteq> []" using s(2) assms(3) by auto
  have sum: "0 < series_sum s" using series_sum_pos[OF pos ne] .
  show ?thesis
    using s pos sum by (simp add: lang_probs_def series_div_labels series_div_pos series_div_sum)
qed

lemma get_counts_eq: "get_counts m ctx = (lang_counts m ctx, snd (get_counts m ctx))"
  by (metis get_counts_fst prod.collapse)

lemma lang_predict_proba_fst: "fst (lang_predict_proba m ctx) = lang_probs m ctx"
  using get_counts_fst[of m ctx]
  by (cases "get_counts m ctx") (auto simp: lang_predict_proba_def lang_probs_def split: sum.splits)

lemma lang_predict_proba_grown: "lang_grown m (snd (lang_predict_proba m ctx))"
  using get_counts_grown[of m ctx]
  by (cases "get_counts m ctx") (auto simp: lang_predict_proba_def split: sum.splits)

lemma lang_probs_grown: "lang_grown m m' \<Longrightarrow> lang_probs m' ctx = lang_probs m ctx"
  by (simp add: lang_probs_def lang_counts_grown)

lemma lang_slp_grown: "lang_grown m m' \<Longrightarrow> lang_slp m' ctx cont r = lang_slp m ctx cont r"
  by (induction cont arbitrary: ctx r) (simp_all add: lang_probs_grown split: sum.splits)

lemma lang_single_log_proba_loop_view:
  "lang_grown m0 m \<Longrightarrow>
     fst (lang_single_log_proba_loop m ctx cont r) = lang_slp m0 ctx cont r \<and>
     lang_grown m0 (snd (lang_single_log_proba_loop m ctx cont r))"
proof (induction cont arbitrary: m ctx r)
  case Nil
  then show ?case by simp
next
  case (Cons token rest)
  obtain res m1 where pp0: "lang_predict_proba m ctx = (res, m1)"
    by (cases "lang_predict_proba m ctx")
  have pp: "lang_predict_proba m ctx = (lang_probs m0 ctx, m1)"
    using lang_predict_proba_fst[of m ctx] pp0 lang_probs_grown[OF Cons.prems] by simp
  have g1: "lang_grown m0 m1"
    using lang_predict_proba_grown[of m ctx] pp Cons.prems lang_grown_trans by fastforce
  show ?case
  proof (cases "lang_probs m0 ctx")
    case (Inl e)
    then show ?thesis using pp g1 by simp
  next
    case (Inr proba)
    note pr = Inr
    show ?thesis
    proof (cases "series_getitem proba token")
      case (Inl e)
      then show ?thesis using pp g1 pr by simp
    next
      case (Inr p)
      show ?thesis
        using Cons.IH[OF g1, of "ctx @ [token]" "r + ln p"] pp pr Inr
        by simp
    qed
  qed
qed

lemma lang_single_log_proba_fst:
  "fst (lang_single_log_proba m ctx cont) = lang_slp m ctx cont 0"
  using lang_single_log_proba_loop_view[OF lang_grown_refl, of m ctx cont 0]
  by (simp add: lang_single_log_proba_def)

lemma lang_single_log_proba_grown:
  "lang_grown m (snd (lang_single_log_proba m ctx cont))"
  using lang_single_log_proba_loop_view[OF lang_grown_refl, of m ctx cont 0]
  by (simp add: lang_single_log_proba_def)

lemma lang_single_proba_fst:
  "fst (lang_single_proba m ctx cont) = map_sum id exp (lang_slp m ctx cont 0)"
  using lang_single_log_proba_fst[of m ctx cont]
  by (cases "lang_single_log_proba m ctx cont")
     (auto simp: lang_single_proba_def split: sum.splits)

lemma lang_single_proba_grown:
  "lang_grown m (snd (lang_single_proba m ctx cont))"
  using lang_single_log_proba_grown[of m ctx cont]
  by (cases "lang_single_log_proba m ctx cont")
     (auto simp: lang_single_proba_def split: sum.splits)

lemma missed_grown_refl: "missed_grown m m"
  by (simp add: missed_grown_def dd_grown_refl)

lemma missed_grown_trans: "missed_grown a b \<Longrightarrow> missed_grown b c \<Longrightarrow> missed_grown a c"
  unfolding missed_grown_def by (auto intro: dd_grown_trans)

lemma missed_proba_grown: "missed_grown m m' \<Longrightarrow> missed_proba m' ctx c = missed_proba m ctx c"
  using dd_grown_lookup[of "missed_counter_attr m" "missed_counter_attr m'"]
        dd_grown_lookup[of "total_counter_attr m" "total_counter_attr m'"]
  by (simp add: missed_grown_def missed_proba_def)

lemma missed_predict_proba_fst: "fst (missed_predict_proba m ctx c) = missed_proba m ctx c"
  by (simp add: missed_predict_proba_def missed_proba_def Let_def dd_getitem_fst[symmetric]
           split: prod.splits)

lemma missed_predict_proba_grown: "missed_grown m (snd (missed_predict_proba m ctx c))"
  using dd_getitem_grown[of "missed_counter_attr m" "local_context (missed_order m) ctx"]
        dd_getitem_grown[of "total_counter_attr m" "local_context (missed_order m) ctx"]
  by (auto simp: missed_predict_proba_def missed_grown_def Let_def split: prod.splits)

lemma missed_slp_grown: "missed_grown m m' \<Longrightarrow> missed_slp m' ctx ps r = missed_slp m ctx ps r"
  by (induction ps arbitrary: ctx r) (auto simp: missed_proba_grown split: sum.splits)

lemma missed_single_log_proba_loop_view:
  "missed_grown m0 m \<Longrightarrow>
     fst (missed_single_log_proba_loop m ctx ps r) = missed_slp m0 ctx ps r \<and>
     missed_grown m0 (snd (missed_single_log_proba_loop m ctx ps r))"
proof (induction ps arbitrary: m ctx r)
  case Nil
  then show ?case by simp
next
  case (Cons a rest)
  obtain orig_token act_token where a: "a = (orig_token, act_token)" by (cases a)
  obtain res m1 where pp0: "missed_predict_proba m ctx orig_token = (res, m1)"
    by (cases "missed_predict_proba m ctx orig_token")
  have pp: "missed_predict_proba m ctx orig_token = (missed_proba m0 ctx orig_token, m1)"
    using missed_predict_proba_fst[of m ctx orig_token] pp0 missed_proba_grown[OF Cons.prems] by simp
  have g1: "missed_grown m0 m1"
    using missed_predict_proba_grown[of m ctx orig_token] pp Cons.prems missed_grown_trans by fastforce
  show ?case
  proof (cases "missed_proba m0 ctx orig_token")
    case (Inl e)
    then show ?thesis using pp g1 a by simp
  next
    case (Inr p)
    show ?thesis
      using Cons.IH[OF g1] pp Inr a
      by (simp add: Let_def)
  qed
qed

lemma missed_single_log_proba_fst:
  "fst (missed_single_log_proba m ctx cont actual) =
     missed_slp m ctx (zip cont (case actual of None \<Rightarrow> cont | Some a \<Rightarrow> if a = [] then cont else a)) 0"
  using missed_single_log_proba_loop_view[OF missed_grown_refl]
  by (simp add: missed_single_log_proba_def Let_def)

lemma missed_single_log_proba_grown:
  "missed_grown m (snd (missed_single_log_proba m ctx cont actual))"
  using missed_single_log_proba_loop_view[OF missed_grown_refl]
  by (simp add: missed_single_log_proba_def Let_def)

lemma option_branch_view:
  "fst (option_branch letter prefix suffix mm) = option_branch_value letter prefix suffix mm \<and>
   missed_grown mm (snd (option_branch letter prefix suffix mm))"
proof (cases letter)
  case (Cons c rest)
  show ?thesis
    using missed_predict_proba_fst[of mm prefix c] missed_predict_proba_grown[of mm prefix c]
    by (cases "missed_predict_proba mm prefix c")
       (auto simp: Cons option_branch_def option_branch_value_def split: sum.splits)
next
  case Nil
  show ?thesis
  proof (cases suffix)
    case Nil
    then show ?thesis
      using \<open>letter = []\<close> by (simp add: option_branch_def option_branch_value_def missed_grown_refl)
  next
    case (Cons c rest)
    show ?thesis
      using missed_predict_proba_fst[of mm prefix c] missed_predict_proba_grown[of mm prefix c]
      by (cases "missed_predict_proba mm prefix c")
         (auto simp: Cons Nil option_branch_def option_branch_value_def split: sum.splits)
  qed
qed

lemma lang_sp_grown: "lang_grown m m' \<Longrightarrow> lang_sp m' ctx cont = lang_sp m ctx cont"
  by (simp add: lang_sp_def lang_slp_grown)

lemma lang_single_proba_view:
  "fst (lang_single_proba m ctx cont) = lang_sp m ctx cont \<and>
   lang_grown m (snd (lang_single_proba m ctx cont))"
  using lang_single_log_proba_fst[of m ctx cont] lang_single_log_proba_grown[of m ctx cont]
  by (cases "lang_single_log_proba m ctx cont")
     (auto simp: lang_single_proba_def lang_sp_def split: sum.splits)

lemma option_suffix_cost_view:
  "fst (option_suffix_cost np ns lm optimism cache) = option_suffix_cost_value np ns lm optimism cache \<and>
   lang_grown lm (snd (option_suffix_cost np ns lm optimism cache))"
  using lang_single_proba_view[of lm np ns]
  by (cases "lang_single_proba lm np ns")
     (auto simp: option_suffix_cost_def option_suffix_cost_value_def lang_grown_refl split: sum.splits)

lemma option_suffix_cost_value_grown:
  "lang_grown m m' \<Longrightarrow>
     option_suffix_cost_value np ns m' optimism cache = option_suffix_cost_value np ns m optimism cache"
  by (simp add: option_suffix_cost_value_def lang_sp_grown)

lemma option_branch_value_grown:
  "missed_grown mm mm' \<Longrightarrow>
     option_branch_value letter prefix suffix mm' = option_branch_value letter prefix suffix mm"
  by (simp add: option_branch_value_def missed_proba_grown split: list.splits)

lemma option_value_grown:
  "lang_grown lm lm' \<Longrightarrow> missed_grown mm mm' \<Longrightarrow>
     option_value letter pp prefix suffix lm' mm' optimism cache =
     option_value letter pp prefix suffix lm mm optimism cache"
  by (simp add: option_value_def option_branch_value_grown lang_sp_grown
        option_suffix_cost_value_grown split: sum.splits prod.splits)

lemma options_value_grown:
  "lang_grown lm lm' \<Longrightarrow> missed_grown mm mm' \<Longrightarrow>
     options_value letters pp prefix suffix lm' mm' optimism cache acc =
     options_value letters pp prefix suffix lm mm optimism cache acc"
  by (induction letters arbitrary: acc) (simp_all add: option_value_grown split: sum.splits)

lemma generate_options_loop_view:
  "lang_grown lm0 lm \<Longrightarrow> missed_grown mm0 mm \<Longrightarrow>
     fst (generate_options_loop letters pp prefix suffix lm mm optimism cache acc) =
       options_value letters pp prefix suffix lm0 mm0 optimism cache acc \<and>
     lang_grown lm0 (fst (snd (generate_options_loop letters pp prefix suffix lm mm optimism cache acc))) \<and>
     missed_grown mm0 (snd (snd (generate_options_loop letters pp prefix suffix lm mm optimism cache acc)))"
proof (induction letters arbitrary: lm mm acc)
  case Nil
  then show ?case by simp
next
  case (Cons letter letters)
  obtain rb mm1 where ob0: "option_branch letter prefix suffix mm = (rb, mm1)"
    by (cases "option_branch letter prefix suffix mm")
  have ob: "option_branch letter prefix suffix mm = (option_branch_value letter prefix suffix mm0, mm1)"
    using option_branch_view[of letter prefix suffix mm] ob0 option_branch_value_grown[OF Cons.prems(2)]
    by simp
  have g_mm1: "missed_grown mm0 mm1"
    using option_branch_view[of letter prefix suffix mm] ob0 Cons.prems(2) missed_grown_trans
    by fastforce
  show ?case
  proof (cases "option_branch_value letter prefix suffix mm0")
    case (Inl e)
    then show ?thesis
      using ob g_mm1 Cons.prems(1) by (simp add: option_value_def)
  next
    case (Inr quad)
    obtain next_letter new_suffix new_prefix pms where quad: "quad = (next_letter, new_suffix, new_prefix, pms)"
      by (cases quad)
    note br = Inr[unfolded quad]
    obtain rq lm1 where sp0: "lang_single_proba lm prefix [next_letter] = (rq, lm1)"
      by (cases "lang_single_proba lm prefix [next_letter]")
    have sp: "lang_single_proba lm prefix [next_letter] = (lang_sp lm0 prefix [next_letter], lm1)"
      using lang_single_proba_view[of lm prefix "[next_letter]"] sp0 lang_sp_grown[OF Cons.prems(1)]
      by simp
    have g_lm1: "lang_grown lm0 lm1"
      using lang_single_proba_view[of lm prefix "[next_letter]"] sp0 Cons.prems(1) lang_grown_trans
      by fastforce
    show ?thesis
    proof (cases "lang_sp lm0 prefix [next_letter]")
      case (Inl e)
      then show ?thesis
        using ob br sp g_mm1 g_lm1 by (simp add: option_value_def)
    next
      case (Inr q)
      note q = Inr
      obtain rs lm2 where sc0: "option_suffix_cost new_prefix new_suffix lm1 optimism cache = (rs, lm2)"
        by (cases "option_suffix_cost new_prefix new_suffix lm1 optimism cache")
      have sc: "option_suffix_cost new_prefix new_suffix lm1 optimism cache =
                  (option_suffix_cost_value new_prefix new_suffix lm0 optimism cache, lm2)"
        using option_suffix_cost_view[of new_prefix new_suffix lm1 optimism cache] sc0
              option_suffix_cost_value_grown[OF g_lm1]
        by simp
      have g_lm2: "lang_grown lm0 lm2"
        using option_suffix_cost_view[of new_prefix new_suffix lm1 optimism cache] sc0 g_lm1
              lang_grown_trans
        by fastforce
      show ?thesis
      proof (cases "option_suffix_cost_value new_prefix new_suffix lm0 optimism cache")
        case (Inl e)
        then show ?thesis
          using ob br sp q sc g_mm1 g_lm2 by (simp add: option_value_def)
      next
        case (Inr proba_suffix)
        show ?thesis
          using Cons.IH[OF g_lm2 g_mm1] ob br sp q sc Inr
          by (simp add: option_value_def)
      qed
    qed
  qed
qed

lemma generate_options_view:
  assumes "lang_grown lm0 lm" "missed_grown mm0 mm"
  shows "fst (generate_options pp prefix suffix lm mm optimism cache) =
           generate_options_value pp prefix suffix lm0 mm0 optimism cache \<and>
         lang_grown lm0 (fst (snd (generate_options pp prefix suffix lm mm optimism cache))) \<and>
         missed_grown mm0 (snd (snd (generate_options pp prefix suffix lm mm optimism cache)))"
  using generate_options_loop_view[OF assms] lang_grown_fields[OF assms(1)]
  by (simp add: generate_options_def generate_options_value_def)

lemma missed_slp_none_grown:
  "missed_grown m m' \<Longrightarrow> missed_slp_none m' ctx cont = missed_slp_none m ctx cont"
  by (simp add: missed_slp_none_def missed_slp_grown)

lemma missed_single_log_proba_none_view:
  "fst (missed_single_log_proba m ctx cont None) = missed_slp_none m ctx cont \<and>
   missed_grown m (snd (missed_single_log_proba m ctx cont None))"
  using missed_single_log_proba_fst[of m ctx cont None] missed_single_log_proba_grown[of m ctx cont None]
  by (simp add: missed_slp_none_def)

lemma lang_single_log_proba_view:
  "fst (lang_single_log_proba m ctx cont) = lang_slp m ctx cont 0 \<and>
   lang_grown m (snd (lang_single_log_proba m ctx cont))"
  using lang_single_log_proba_fst lang_single_log_proba_grown by simp

lemma cache_value_grown:
  "lang_grown lm lm' \<Longrightarrow> missed_grown mm mm' \<Longrightarrow>
     cache_value is query lm' mm' cache = cache_value is query lm mm cache"
  by (induction "is" arbitrary: cache)
     (simp_all add: lang_slp_grown missed_slp_none_grown Let_def split: sum.splits)

lemma cache_loop_view:
  "lang_grown lm0 lm \<Longrightarrow> missed_grown mm0 mm \<Longrightarrow>
     fst (cache_loop is query lm mm cache) = cache_value is query lm0 mm0 cache \<and>
     lang_grown lm0 (fst (snd (cache_loop is query lm mm cache))) \<and>
     missed_grown mm0 (snd (snd (cache_loop is query lm mm cache)))"
proof (induction "is" arbitrary: lm mm cache)
  case Nil
  then show ?case by simp
next
  case (Cons i rest)
  obtain ra lm1 where a0: "lang_single_log_proba lm [] (take i query) = (ra, lm1)"
    by (cases "lang_single_log_proba lm [] (take i query)")
  have a: "lang_single_log_proba lm [] (take i query) = (lang_slp lm0 [] (take i query) 0, lm1)"
    using lang_single_log_proba_view[of lm "[]" "take i query"] a0 lang_slp_grown[OF Cons.prems(1)]
    by simp
  have g1: "lang_grown lm0 lm1"
    using lang_single_log_proba_view[of lm "[]" "take i query"] a0 Cons.prems(1) lang_grown_trans
    by fastforce
  obtain rb mm1 where b0: "missed_single_log_proba mm [] (take i query) None = (rb, mm1)"
    by (cases "missed_single_log_proba mm [] (take i query) None")
  have b: "missed_single_log_proba mm [] (take i query) None =
             (missed_slp_none mm0 [] (take i query), mm1)"
    using missed_single_log_proba_none_view[of mm "[]" "take i query"] b0
          missed_slp_none_grown[OF Cons.prems(2)]
    by simp
  have g2: "missed_grown mm0 mm1"
    using missed_single_log_proba_none_view[of mm "[]" "take i query"] b0 Cons.prems(2)
          missed_grown_trans
    by fastforce
  show ?case
  proof (cases "lang_slp lm0 [] (take i query) 0")
    case (Inl e)
    then show ?thesis using a g1 Cons.prems(2) by (simp add: Let_def)
  next
    case (Inr x)
    note x = Inr
    show ?thesis
    proof (cases "missed_slp_none mm0 [] (take i query)")
      case (Inl e)
      then show ?thesis using a b x g1 g2 by (simp add: Let_def)
    next
      case (Inr y)
      show ?thesis
        using Cons.IH[OF g1 g2] a b x Inr by (simp add: Let_def)
    qed
  qed
qed

lemma loop_value_grown:
  "lang_grown lm lm' \<Longrightarrow> missed_grown mm mm' \<Longrightarrow>
     loop_value n heap cands best lm' mm' freedom optimism cache =
     loop_value n heap cands best lm mm freedom optimism cache"
proof (induction n arbitrary: heap cands best)
  case 0
  then show ?case by simp
next
  case (Suc n)
  have gv: "\<And>pp p s. generate_options_value pp p s lm' mm' optimism (Some cache) =
                generate_options_value pp p s lm mm optimism (Some cache)"
    using options_value_grown[OF Suc.prems] lang_grown_fields[OF Suc.prems(1)]
    by (simp add: generate_options_value_def)
  show ?case
    using Suc.IH[OF Suc.prems]
    by (simp add: gv split: list.splits prod.splits sum.splits)
qed

lemma noisy_channel_loop_view:
  "lang_grown lm0 lm \<Longrightarrow> missed_grown mm0 mm \<Longrightarrow>
     fst (noisy_channel_loop n heap cands best lm mm freedom optimism cache) =
       loop_value n heap cands best lm0 mm0 freedom optimism cache \<and>
     lang_grown lm0 (fst (snd (noisy_channel_loop n heap cands best lm mm freedom optimism cache))) \<and>
     missed_grown mm0 (snd (snd (noisy_channel_loop n heap cands best lm mm freedom optimism cache)))"
proof (induction n arbitrary: heap cands best lm mm)
  case 0
  then show ?case by simp
next
  case (Suc n)
  show ?case
  proof (cases heap)
    case Nil
    then show ?thesis using Suc.prems by simp
  next
    case (Cons next_best heap')
    obtain score prefix suffix letter proba_suffix where
      nb: "next_best = (score, prefix, suffix, letter, proba_suffix)"
      by (cases next_best)
    show ?thesis
    proof (cases "suffix = []")
      case True
      then show ?thesis
        using Suc.IH[OF Suc.prems] Cons nb by simp
    next
      case False
      let ?g = "generate_options (score - proba_suffix) prefix suffix lm mm optimism (Some cache)"
      obtain r lm1 mm1 where g0: "?g = (r, lm1, mm1)"
        by (cases ?g)
      have gv: "?g = (generate_options_value (score - proba_suffix) prefix suffix lm0 mm0 optimism
                        (Some cache), lm1, mm1)"
        using generate_options_view[OF Suc.prems, of "score - proba_suffix" prefix suffix optimism "Some cache"] g0
        by simp
      have g1: "lang_grown lm0 lm1" "missed_grown mm0 mm1"
        using generate_options_view[OF Suc.prems, of "score - proba_suffix" prefix suffix optimism "Some cache"] g0
        by simp_all
      show ?thesis
      proof (cases "generate_options_value (score - proba_suffix) prefix suffix lm0 mm0 optimism (Some cache)")
        case (Inl e)
        then show ?thesis using Cons nb False gv g1 by (simp add: Let_def)
      next
        case (Inr new_options)
        then show ?thesis
          using Suc.IH[OF g1] Cons nb False gv by (simp add: Let_def)
      qed
    qed
  qed
qed

lemma noisy_channel_view:
  "fst (noisy_channel word lm mm freedom max_attempts optimism) =
     noisy_channel_value word lm mm freedom max_attempts optimism \<and>
   lang_grown lm (fst (snd (noisy_channel word lm mm freedom max_attempts optimism))) \<and>
   missed_grown mm (snd (snd (noisy_channel word lm mm freedom max_attempts optimism)))"
proof -
  let ?q = "word @ '' ''"
  obtain ra lm1 where a0: "lang_single_log_proba lm '' '' ?q = (ra, lm1)"
    by (cases "lang_single_log_proba lm '' '' ?q")
  have a: "lang_single_log_proba lm '' '' ?q = (lang_slp lm '' '' ?q 0, lm1)"
    using lang_single_log_proba_view[of lm "'' ''" ?q] a0 by simp
  have g1: "lang_grown lm lm1"
    using lang_single_log_proba_view[of lm "'' ''" ?q] a0 by simp
  show ?thesis
  proof (cases "lang_slp lm '' '' ?q 0")
    case (Inl e)
    then show ?thesis
      using a g1 by (simp add: noisy_channel_def noisy_channel_value_def Let_def missed_grown_refl)
  next
    case (Inr x)
    note x = Inr
    obtain rb mm1 where b0: "missed_single_log_proba mm '' '' ?q None = (rb, mm1)"
      by (cases "missed_single_log_proba mm '' '' ?q None")
    have b: "missed_single_log_proba mm '' '' ?q None = (missed_slp_none mm '' '' ?q, mm1)"
      using missed_single_log_proba_none_view[of mm "'' ''" ?q] b0 by simp
    have g2: "missed_grown mm mm1"
      using missed_single_log_proba_none_view[of mm "'' ''" ?q] b0 by simp
    show ?thesis
    proof (cases "missed_slp_none mm '' '' ?q")
      case (Inl e)
      then show ?thesis
        using a b x g1 g2 by (simp add: noisy_channel_def noisy_channel_value_def Let_def)
    next
      case (Inr y)
      note y = Inr
      let ?c = "cache_loop [0..<length ?q + 1] ?q lm1 mm1 []"
      obtain rc lm2 mm2 where c0: "?c = (rc, lm2, mm2)" by (cases ?c)
      have c: "?c = (cache_value [0..<length ?q + 1] ?q lm mm [], lm2, mm2)"
        using cache_loop_view[OF g1 g2, of "[0..<length ?q + 1]" ?q "[]"] c0 by simp
      have g3: "lang_grown lm lm2" "missed_grown mm mm2"
        using cache_loop_view[OF g1 g2, of "[0..<length ?q + 1]" ?q "[]"] c0 by simp_all
      show ?thesis
      proof (cases "cache_value [0..<length ?q + 1] ?q lm mm []")
        case (Inl e)
        then show ?thesis
          using a b x y c g3 by (simp add: noisy_channel_def noisy_channel_value_def Let_def)
      next
        case (Inr cache)
        note cache = Inr
        let ?b = "- x + - y"
        let ?h = "[(?b * optimism, '' '', ?q, [], ?b * optimism)] :: hypothesis list"
        let ?cs = "[(?b, '' '' @ ?q, [], None, 0)] :: candidate list"
        let ?l = "noisy_channel_loop max_attempts ?h ?cs ?b lm2 mm2 freedom optimism cache"
        obtain rl lm3 mm3 where l0: "?l = (rl, lm3, mm3)" by (cases ?l)
        note v = noisy_channel_loop_view[OF g3, of max_attempts ?h ?cs ?b freedom optimism cache]
        have lv: "?l = (loop_value max_attempts ?h ?cs ?b lm mm freedom optimism cache, lm3, mm3)"
          using v l0 by (metis fst_conv)
        have g4: "lang_grown lm lm3" "missed_grown mm mm3"
          using v l0 by (metis fst_conv snd_conv)+
        show ?thesis
          using a b x y c cache lv g4
          by (simp add: noisy_channel_def noisy_channel_value_def Let_def split: sum.splits prod.splits)
      qed
    qed
  qed
qed

lemmas missed_eval = missed_fit_def enumerate_eq_zip dd_increment_def dd_getitem_def
  dd_lookup_def empty_counter_def local_context_def Let_def missed_proba_def
  missed_slp_none_def

lemma dd_lookup_increment:
  "dd_lookup (dd_increment d k t) k' c =
     dd_lookup d k' c + (if k' = k \<and> c = t then 1 else 0)"
  by (auto simp: dd_lookup_def dd_increment_def dd_getitem_def empty_counter_def split: option.splits)

lemma missed_fit_pair_le:
  "missed_le_total st \<Longrightarrow> missed_le_total (missed_fit_pair ord original xs st)"
proof (induction ord original xs st rule: missed_fit_pair.induct)
  case (1 ord original st)
  then show ?case by simp
next
  case (2 ord original i original_letter observed_letter rest mc tc)
  have "missed_le_total
          ((if observed_letter = CHR ''-''
            then dd_increment mc (take ord (drop i original)) original_letter else mc),
           dd_increment tc (take ord (drop i original)) original_letter)"
    using "2.prems" unfolding missed_le_total_def
    by (auto simp: dd_lookup_increment le_SucI)
  then show ?case using "2.IH" by (simp add: Let_def)
qed

lemma missed_fit_loop_le:
  "missed_le_total st \<Longrightarrow> missed_le_total (missed_fit_loop ord pairs st)"
  by (induction ord pairs st rule: missed_fit_loop.induct) (simp_all add: missed_fit_pair_le)

lemma missed_fit_le:
  "dd_lookup (missed_counter_attr (missed_fit ord sm st pairs)) k c
     \<le> dd_lookup (total_counter_attr (missed_fit ord sm st pairs)) k c"
proof -
  have "missed_le_total (Map.empty, Map.empty)"
    by (simp add: missed_le_total_def)
  then have "missed_le_total (missed_fit_loop ord pairs (Map.empty, Map.empty))"
    by (rule missed_fit_loop_le)
  then show ?thesis
    by (cases "missed_fit_loop ord pairs (Map.empty, Map.empty)")
       (simp add: missed_fit_def missed_le_total_def)
qed

lemma missed_fit_fields:
  "missed_order (missed_fit ord sm st pairs) = ord"
  "smoothing_missed (missed_fit ord sm st pairs) = sm"
  "smoothing_total (missed_fit ord sm st pairs) = st"
  by (simp_all add: missed_fit_def split: prod.splits)

lemma missed_proba_fit_bounds:
  assumes "0 < sm" "sm < st"
  shows "\<exists>p. missed_proba (missed_fit ord sm st pairs) ctx c = Inr p \<and> 0 < p \<and> p < 1"
proof -
  let ?m = "missed_fit ord sm st pairs"
  let ?a = "dd_lookup (missed_counter_attr ?m) (local_context ord ctx) c"
  let ?b = "dd_lookup (total_counter_attr ?m) (local_context ord ctx) c"
  have le: "real ?a \<le> real ?b" using missed_fit_le[of ord sm st pairs] by simp
  have pos: "0 < real ?b + st" using assms by (simp add: add_nonneg_pos)
  have num: "0 < real ?a + sm" using assms by (simp add: add_nonneg_pos)
  have lt: "real ?a + sm < real ?b + st" using le assms by simp
  have "missed_proba ?m ctx c = Inr ((real ?a + sm) / (real ?b + st))"
    using pos by (simp add: missed_proba_def missed_fit_fields Let_def)
  moreover have "0 < (real ?a + sm) / (real ?b + st)" using num pos by simp
  moreover have "(real ?a + sm) / (real ?b + st) < 1" using lt pos by simp
  ultimately show ?thesis by blast
qed

lemma lang_probs_pos:
  assumes "lang_wf m" "0 < smoothing m"
  shows "\<exists>pr. lang_probs m ctx = Inr pr \<and> map fst pr = vocabulary_attr m \<and> series_pos pr"
proof (cases "vocabulary_attr m = []")
  case False
  then show ?thesis using lang_probs_wf[OF assms False] by blast
next
  case True
  obtain s where s: "lang_counts m ctx = Inr s" "map fst s = vocabulary_attr m"
    using lang_counts_wf[OF assms(1)] by blast
  then have "s = []" using True by simp
  then show ?thesis using s True
    by (simp add: lang_probs_def series_div_def series_pos_def)
qed

lemma lang_fit_eval:
  "lang_fit ord sm rc corpus =
     LanguageNgramModel ord sm rc
       (fst (lang_fit_loop corpus ord (enumerate 0 (drop ord corpus)) (Map.empty, empty_counter, {})))
       (fst (snd (lang_fit_loop corpus ord (enumerate 0 (drop ord corpus)) (Map.empty, empty_counter, {}))))
       (sort (remdups (drop ord corpus)))
       (if rc > 0 \<and> ord > 0 then Some (lang_fit (ord - 1) sm rc corpus) else None)"
  using lang_fit_vocabulary[of ord sm rc corpus]
  by (cases "lang_fit_loop corpus ord (enumerate 0 (drop ord corpus)) (Map.empty, empty_counter, {})")
     (simp add: lang_fit.simps[of ord])

lemmas lang_eval = lang_fit_eval enumerate_eq_zip dd_increment_def dd_getitem_def
  dd_lookup_def empty_counter_def local_context_def Let_def lang_probs_def
  series_scale_def series_sum_def series_div_def series_iadd_def series_getitem_def

lemma lang_probs_labels:
  "lang_wf m \<Longrightarrow> \<exists>pr. lang_probs m ctx = Inr pr \<and> map fst pr = vocabulary_attr m"
  using lang_counts_wf[of m ctx]
  by (auto simp: lang_probs_def series_div_labels)

lemma series_getitem_KeyError:
  "series_getitem s t = Inl KeyError \<longleftrightarrow> t \<notin> set (map fst s)"
proof -
  have "series_getitem s t = Inl KeyError \<longleftrightarrow> map_of s t = None"
    by (simp add: series_getitem_def split: option.splits)
  then show ?thesis by (simp add: map_of_eq_None_iff)
qed

lemma series_getitem_Inl: "series_getitem s t = Inl e \<Longrightarrow> e = KeyError"
  by (auto simp: series_getitem_def split: option.splits)

lemma lang_slp_KeyError:
  "lang_wf m \<Longrightarrow> \<exists>t\<in>set cont. t \<notin> set (vocabulary_attr m) \<Longrightarrow>
     lang_slp m ctx cont r = Inl KeyError"
proof (induction cont arbitrary: ctx r)
  case Nil
  then show ?case by simp
next
  case (Cons t rest)
  obtain pr where pr: "lang_probs m ctx = Inr pr" "map fst pr = vocabulary_attr m"
    using lang_probs_labels[OF Cons.prems(1)] by blast
  show ?case
  proof (cases "t \<in> set (vocabulary_attr m)")
    case False
    then have "series_getitem pr t = Inl KeyError"
      using pr(2) by (simp add: series_getitem_KeyError)
    then show ?thesis using pr by simp
  next
    case True
    then have rest: "\<exists>t\<in>set rest. t \<notin> set (vocabulary_attr m)"
      using Cons.prems(2) by auto
    show ?thesis
    proof (cases "series_getitem pr t")
      case (Inl e)
      then show ?thesis using pr series_getitem_Inl[OF Inl] by simp
    next
      case (Inr p)
      then show ?thesis using pr Cons.IH[OF Cons.prems(1) rest] by simp
    qed
  qed
qed

lemma lang_counts_not_IndexError: "lang_counts m ctx \<noteq> Inl IndexError"
proof (induction m)
  case (LanguageNgramModel ord sm rc cnt uni voc ch)
  show ?case
  proof (cases ch)
    case None
    then show ?thesis by (simp add: Let_def)
  next
    case (Some c)
    then have "lang_counts c ctx \<noteq> Inl IndexError"
      using LanguageNgramModel.IH by simp
    then show ?thesis using Some by (auto simp: Let_def split: sum.splits)
  qed
qed

lemma lang_probs_not_IndexError: "lang_probs m ctx \<noteq> Inl IndexError"
  using lang_counts_not_IndexError[of m ctx]
  by (auto simp: lang_probs_def split: sum.splits)

lemma lang_slp_not_IndexError: "lang_slp m ctx cont r \<noteq> Inl IndexError"
proof (induction cont arbitrary: ctx r)
  case Nil
  then show ?case by simp
next
  case (Cons t rest)
  show ?case
    using lang_probs_not_IndexError[of m ctx] Cons.IH
    by (auto split: sum.splits dest: series_getitem_Inl)
qed

lemma lang_sp_not_IndexError: "lang_sp m ctx cont \<noteq> Inl IndexError"
  using lang_slp_not_IndexError[of m ctx cont 0]
  by (auto simp: lang_sp_def split: sum.splits)

lemma missed_proba_not_IndexError: "missed_proba m ctx c \<noteq> Inl IndexError"
  by (simp add: missed_proba_def Let_def)

lemma missed_slp_not_IndexError: "missed_slp m ctx ps r \<noteq> Inl IndexError"
proof (induction ps arbitrary: ctx r)
  case Nil
  then show ?case by simp
next
  case (Cons a rest)
  obtain x y where a: "a = (x, y)" by (cases a)
  show ?case
    using missed_proba_not_IndexError[of m ctx x] Cons.IH
    by (auto simp: a split: sum.splits)
qed

lemma cache_value_not_IndexError: "cache_value is query lm mm cache \<noteq> Inl IndexError"
proof (induction "is" arbitrary: cache)
  case Nil
  then show ?case by simp
next
  case (Cons i rest)
  show ?case
    using lang_slp_not_IndexError[of lm "[]" "take i query" 0]
          missed_slp_not_IndexError[of mm "[]" "zip (take i query) (take i query)" 0] Cons.IH
    by (auto simp: Let_def missed_slp_none_def split: sum.splits)
qed

lemma option_suffix_cost_value_not_IndexError:
  "option_suffix_cost_value np ns lm optimism cache \<noteq> Inl IndexError"
  using lang_sp_not_IndexError[of lm np ns]
  by (auto simp: option_suffix_cost_value_def cache_getitem_def split: sum.splits option.splits)

lemma option_branch_value_IndexError:
  "option_branch_value letter prefix suffix mm = Inl IndexError \<Longrightarrow> suffix = []"
  using missed_proba_not_IndexError[of mm prefix]
  by (auto simp: option_branch_value_def split: list.splits sum.splits)

lemma option_value_IndexError:
  "option_value letter pp prefix suffix lm mm optimism cache = Inl IndexError \<Longrightarrow> suffix = []"
  using option_branch_value_IndexError[of letter prefix suffix mm]
        lang_sp_not_IndexError[of lm prefix] option_suffix_cost_value_not_IndexError[of _ _ lm optimism cache]
  by (auto simp: option_value_def split: sum.splits prod.splits)

lemma options_value_IndexError:
  "options_value letters pp prefix suffix lm mm optimism cache acc = Inl IndexError \<Longrightarrow> suffix = []"
proof (induction letters arbitrary: acc)
  case Nil
  then show ?case by simp
next
  case (Cons letter letters)
  show ?case
  proof (cases "option_value letter pp prefix suffix lm mm optimism cache")
    case (Inl e)
    then show ?thesis using Cons.prems option_value_IndexError by fastforce
  next
    case (Inr h)
    then show ?thesis using Cons by simp
  qed
qed

lemma loop_value_not_IndexError:
  "loop_value n heap cands best lm mm freedom optimism cache \<noteq> Inl IndexError"
proof (induction n arbitrary: heap cands best)
  case 0
  then show ?case by simp
next
  case (Suc n)
  show ?case
  proof (cases heap)
    case Nil
    then show ?thesis by simp
  next
    case (Cons next_best heap')
    obtain score prefix suffix letter proba_suffix where
      nb: "next_best = (score, prefix, suffix, letter, proba_suffix)"
      by (cases next_best)
    show ?thesis
    proof (cases "suffix = []")
      case True
      then show ?thesis using Suc.IH Cons nb by simp
    next
      case False
      have "generate_options_value (score - proba_suffix) prefix suffix lm mm optimism (Some cache)
              \<noteq> Inl IndexError"
        using options_value_IndexError False unfolding generate_options_value_def by blast
      then show ?thesis using Suc.IH Cons nb False by (auto split: sum.splits)
    qed
  qed
qed

lemma dd_grown_Some: "dd_grown d d' \<Longrightarrow> d k \<noteq> None \<Longrightarrow> d' k \<noteq> None"
  unfolding dd_grown_def by metis

lemma lang_grown_touched:
  "lang_grown m m' \<Longrightarrow> counter_attr m k \<noteq> None \<Longrightarrow> counter_attr m' k \<noteq> None"
  using lang_grown_fields[of m m'] dd_grown_Some by blast

lemma get_counts_touches:
  "counter_attr (snd (get_counts m ctx)) (local_context (lang_order m) ctx) \<noteq> None"
proof (cases m)
  case (LanguageNgramModel ord sm rc cnt uni voc ch)
  have "snd (dd_getitem cnt (local_context ord ctx)) (local_context ord ctx) \<noteq> None"
    by (simp add: dd_getitem_def split: option.splits)
  then show ?thesis
    unfolding LanguageNgramModel
    by (auto simp: Let_def split: prod.splits option.splits sum.splits)
qed

lemma lang_predict_proba_snd: "snd (lang_predict_proba m ctx) = snd (get_counts m ctx)"
  by (cases "get_counts m ctx") (auto simp: lang_predict_proba_def split: sum.splits)

lemma lang_single_log_proba_touches:
  "counter_attr (snd (lang_single_log_proba m ctx (t # rest))) (local_context (lang_order m) ctx)
     \<noteq> None"
proof -
  obtain r m1 where pp: "lang_predict_proba m ctx = (r, m1)"
    by (cases "lang_predict_proba m ctx")
  have m1: "counter_attr m1 (local_context (lang_order m) ctx) \<noteq> None"
    using get_counts_touches[of m ctx] lang_predict_proba_snd[of m ctx] pp by simp
  have "lang_grown m1 (snd (lang_single_log_proba m ctx (t # rest)))"
    using pp lang_single_log_proba_loop_view[OF lang_grown_refl[of m1]]
    by (auto simp: lang_single_log_proba_def lang_grown_refl split: sum.splits)
  then show ?thesis using lang_grown_touched m1 by blast
qed

lemma cache_loop_grown:
  "lang_grown lm (fst (snd (cache_loop is query lm mm cache)))"
  using cache_loop_view[OF lang_grown_refl missed_grown_refl] by blast

lemma cache_loop_touches:
  assumes "query \<noteq> []"
  shows "counter_attr (fst (snd (cache_loop (0 # 1 # rest) query lm mm cache)))
           (local_context (lang_order lm) []) \<noteq> None"
proof -
  obtain t q' where q: "query = t # q'" using assms by (cases query) auto
  let ?k = "local_context (lang_order lm) []"
  obtain rb mm1 where b0: "missed_single_log_proba mm [] [] None = (rb, mm1)"
    by (cases "missed_single_log_proba mm [] [] None")
  have rb: "rb = Inr 0"
    using b0 by (simp add: missed_single_log_proba_def)
  obtain ra lm1 where a1: "lang_single_log_proba lm [] [t] = (ra, lm1)"
    by (cases "lang_single_log_proba lm [] [t]")
  have t1: "counter_attr lm1 ?k \<noteq> None"
    using lang_single_log_proba_touches[of lm "[]" t "[]"] a1 by simp
  have step0: "cache_loop (0 # 1 # rest) query lm mm cache =
                 cache_loop (1 # rest) query lm mm1 (AList.update 0 0 cache)"
    using b0 rb by (simp add: lang_single_log_proba_def Let_def)
  show ?thesis
  proof (cases ra)
    case (Inl e)
    then show ?thesis using step0 a1 t1 q by (simp add: Let_def)
  next
    case (Inr x)
    obtain rc mm2 where b1: "missed_single_log_proba mm1 [] [t] None = (rc, mm2)"
      by (cases "missed_single_log_proba mm1 [] [t] None")
    show ?thesis
    proof (cases rc)
      case (Inl e)
      then show ?thesis using step0 a1 b1 Inr t1 q by (simp add: Let_def)
    next
      case (Inr y)
      have "lang_grown lm1 (fst (snd (cache_loop rest query lm1 mm2
                 (AList.update 1 (- x + - y) (AList.update 0 0 cache)))))"
        by (rule cache_loop_grown)
      then show ?thesis
        using step0 a1 b1 Inr \<open>ra = Inr x\<close> t1 q lang_grown_touched
        by (simp add: Let_def)
    qed
  qed
qed

lemma noisy_channel_loop_grown:
  "lang_grown lm (fst (snd (noisy_channel_loop n heap cands best lm mm freedom optimism cache)))"
  using noisy_channel_loop_view[OF lang_grown_refl missed_grown_refl] by blast

lemma lang_order_grown: "lang_grown m m' \<Longrightarrow> lang_order m' = lang_order m"
  using lang_grown_fields by blast

lemma noisy_channel_touches:
  assumes "lang_slp lm '' '' (word @ '' '') 0 = Inr a"
      and "missed_slp_none mm '' '' (word @ '' '') = Inr b"
  shows "counter_attr (fst (snd (noisy_channel word lm mm freedom max_attempts optimism)))
           (local_context (lang_order lm) []) \<noteq> None"
proof -
  let ?q = "word @ '' ''"
  let ?k = "local_context (lang_order lm) []"
  obtain ra lm1 where a0: "lang_single_log_proba lm '' '' ?q = (ra, lm1)"
    by (cases "lang_single_log_proba lm '' '' ?q")
  have ra: "ra = Inr a" and g1: "lang_grown lm lm1"
    using lang_single_log_proba_view[of lm "'' ''" ?q] a0 assms(1) by simp_all
  obtain rb mm1 where b0: "missed_single_log_proba mm '' '' ?q None = (rb, mm1)"
    by (cases "missed_single_log_proba mm '' '' ?q None")
  have rb: "rb = Inr b"
    using missed_single_log_proba_none_view[of mm "'' ''" ?q] b0 assms(2) by simp
  have upt: "[0..<length ?q + 1] = 0 # 1 # [2..<length ?q + 1]"
    by (simp add: upt_rec numeral_2_eq_2)
  let ?c = "cache_loop [0..<length ?q + 1] ?q lm1 mm1 []"
  obtain rc lm2 mm2 where c0: "?c = (rc, lm2, mm2)" by (cases ?c)
  have "counter_attr (fst (snd ?c)) (local_context (lang_order lm1) []) \<noteq> None"
    unfolding upt by (rule cache_loop_touches) simp
  then have t2: "counter_attr lm2 ?k \<noteq> None"
    using c0 lang_order_grown[OF g1] by simp
  show ?thesis
  proof (cases rc)
    case (Inl e)
    then show ?thesis
      using a0 ra b0 rb c0 t2 by (simp add: noisy_channel_def Let_def)
  next
    case (Inr cache)
    let ?best = "- a + - b"
    let ?l = "noisy_channel_loop max_attempts
                [(?best * optimism, '' '', ?q, [], ?best * optimism)]
                [(?best, '' '' @ ?q, [], None, 0)] ?best lm2 mm2 freedom optimism cache"
    obtain rl lm3 mm3 where l0: "?l = (rl, lm3, mm3)" by (cases ?l)
    have "lang_grown lm2 (fst (snd ?l))" by (rule noisy_channel_loop_grown)
    then have t3: "counter_attr lm3 ?k \<noteq> None"
      using l0 t2 lang_grown_touched by fastforce
    show ?thesis
      using a0 ra b0 rb c0 Inr l0 t3
      by (simp add: noisy_channel_def Let_def split: sum.splits prod.splits)
  qed
qed

lemma series_getitem_ok:
  "t \<in> set (map fst s) \<Longrightarrow> \<exists>p. series_getitem s t = Inr p"
proof -
  assume "t \<in> set (map fst s)"
  then have "map_of s t \<noteq> None" by (simp add: map_of_eq_None_iff)
  then show ?thesis by (auto simp: series_getitem_def)
qed

lemma lang_slp_ok:
  "lang_wf m \<Longrightarrow> set cont \<subseteq> set (vocabulary_attr m) \<Longrightarrow> \<exists>x. lang_slp m ctx cont r = Inr x"
proof (induction cont arbitrary: ctx r)
  case Nil
  then show ?case by simp
next
  case (Cons t rest)
  obtain pr where pr: "lang_probs m ctx = Inr pr" "map fst pr = vocabulary_attr m"
    using lang_probs_labels[OF Cons.prems(1)] by blast
  obtain p where p: "series_getitem pr t = Inr p"
    using series_getitem_ok[of t pr] pr(2) Cons.prems(2) by auto
  have "set rest \<subseteq> set (vocabulary_attr m)" using Cons.prems(2) by simp
  then show ?case using Cons.IH[OF Cons.prems(1)] pr p by simp
qed

lemma missed_proba_ok:
  "0 < smoothing_total m \<Longrightarrow>
     missed_proba m ctx c =
       Inr ((real (dd_lookup (missed_counter_attr m) (local_context (missed_order m) ctx) c)
               + smoothing_missed m) /
            (real (dd_lookup (total_counter_attr m) (local_context (missed_order m) ctx) c)
               + smoothing_total m))"
proof -
  assume st: "0 < smoothing_total m"
  have "0 < real (dd_lookup (total_counter_attr m) (local_context (missed_order m) ctx) c)
               + smoothing_total m"
    using st by (simp add: add_nonneg_pos)
  then show ?thesis by (simp add: missed_proba_def Let_def)
qed

lemma missed_slp_ok:
  "0 < smoothing_total m \<Longrightarrow> \<exists>x. missed_slp m ctx ps r = Inr x"
proof (induction ps arbitrary: ctx r)
  case Nil
  then show ?case by simp
next
  case (Cons a rest)
  obtain x y where a: "a = (x, y)" by (cases a)
  show ?case
    using Cons.IH[OF Cons.prems] missed_proba_ok[OF Cons.prems, of ctx x]
    by (simp add: a)
qed




lemma ln_half: "ln (1/2::real) = - ln 2"
  by (simp add: ln_div)

lemma ln_quarter: "ln (1/4::real) = - 2 * ln 2"
  using ln_realpow[of "2::real" 2] by (simp add: ln_div)

lemma ln_eighth: "ln (1/8::real) = - 3 * ln 2"
  using ln_realpow[of "2::real" 3] by (simp add: ln_div)

lemma ln_7_8: "- (1/7) \<le> ln (7/8::real) \<and> ln (7/8::real) \<le> - (1/8)"
proof -
  have a: "ln (7/8::real) \<le> 7/8 - 1" by (rule ln_le_minus_one) simp
  have b: "ln (8/7::real) \<le> 8/7 - 1" by (rule ln_le_minus_one) simp
  have c: "ln (8/7::real) = - ln (7/8)"
    using ln_inverse[of "7/8::real"] by simp
  show ?thesis using a b c by simp
qed

lemma ln_3_4: "- (1/3) \<le> ln (3/4::real) \<and> ln (3/4::real) \<le> - (1/4)"
proof -
  have a: "ln (3/4::real) \<le> 3/4 - 1" by (rule ln_le_minus_one) simp
  have b: "ln (4/3::real) \<le> 4/3 - 1" by (rule ln_le_minus_one) simp
  have c: "ln (4/3::real) = - ln (3/4)"
    using ln_inverse[of "3/4::real"] by simp
  show ?thesis using a b c by simp
qed

lemma ln2_bounds: "3/5 \<le> ln (2::real) \<and> ln (2::real) \<le> 1"
proof -
  have "exp (3/5::real) \<le> 1 + 3/5 + (3/5)\<^sup>2"
    by (rule exp_bound) simp_all
  also have "\<dots> \<le> 2" by (simp add: power2_eq_square)
  finally have e: "exp (3/5::real) \<le> 2" .
  have "3/5 \<le> ln (2::real) \<longleftrightarrow> exp (3/5::real) \<le> 2"
    by (rule ln_ge_iff) simp
  then have a: "3/5 \<le> ln (2::real)" using e by simp
  have b: "ln (2::real) \<le> 2 - 1" by (rule ln_le_minus_one) simp
  show ?thesis using a b by simp
qed

lemma loop_value_empty:
  "loop_value n [] cands best lm mm freedom optimism cache = Inr ([], cands, best)"
  by (cases n) simp_all

lemmas search_eval = noisy_channel_value_def generate_options_value_def option_value_def
  option_branch_value_def option_suffix_cost_value_def cache_truthy_def cache_getitem_def
  lang_sp_def lang_fit_vocabulary heappush_def as_candidate_def upt_rec loop_value_empty

lemma collect_result_keys:
  "fst ` set (collect_result cands best freedom result) =
     fst ` set result \<union>
     (\<lambda>c. butlast (tl (fst (snd c)))) ` {c \<in> set cands. fst c \<le> best + freedom}"
proof (induction cands arbitrary: result)
  case Nil
  then show ?case by simp
next
  case (Cons c cands)
  have split: "{x \<in> set (c # cands). fst x \<le> best + freedom} =
                 (if fst c \<le> best + freedom then {c} else {}) \<union>
                 {x \<in> set cands. fst x \<le> best + freedom}"
    by auto
  show ?case
    unfolding collect_result.simps Cons.IH split
    by (simp add: AList.dom_update image_Un Un_assoc Un_left_commute)
qed

lemma push_options_set:
  "set (push_options opts best freedom heap) =
     set heap \<union> {h \<in> set opts. fst h < best + freedom}"
  by (induction opts arbitrary: heap) (auto simp: heappush_def set_insort_key)

lemma ln_sum_neq:
  "0 < a \<Longrightarrow> 0 < b \<Longrightarrow> 0 < c \<Longrightarrow> 0 < d \<Longrightarrow> a * b \<noteq> c * d \<Longrightarrow>
     ln a + ln b \<noteq> ln c + ln (d::real)"
proof -
  assume p: "0 < a" "0 < b" "0 < c" "0 < d" and ne: "a * b \<noteq> c * d"
  have "ln a + ln b = ln (a * b)" using p by (simp add: ln_mult)
  moreover have "ln c + ln d = ln (c * d)" using p by (simp add: ln_mult)
  moreover have "ln (a * b) \<noteq> ln (c * d)" using p ne by simp
  ultimately show ?thesis by simp
qed

lemma loop_value_candidates:
  "loop_value n heap cands best lm mm freedom optimism cache = Inr (heap', cands', best') \<Longrightarrow>
     \<exists>extra. cands' = cands @ extra"
proof (induction n arbitrary: heap cands best)
  case 0
  then show ?case by simp
next
  case (Suc n)
  show ?case
  proof (cases heap)
    case Nil
    then show ?thesis using Suc.prems by simp
  next
    case (Cons next_best rest)
    obtain score prefix suffix letter proba_suffix where
      nb: "next_best = (score, prefix, suffix, letter, proba_suffix)"
      by (cases next_best)
    show ?thesis
    proof (cases "suffix = []")
      case True
      show ?thesis
      proof (cases "score \<le> best + freedom")
        case True
        have "loop_value n rest (cands @ [as_candidate next_best])
                (if score < best then score else best) lm mm freedom optimism cache =
              Inr (heap', cands', best')"
          using Suc.prems Cons nb \<open>suffix = []\<close> True by simp
        then obtain extra where "cands' = (cands @ [as_candidate next_best]) @ extra"
          using Suc.IH by blast
        then show ?thesis by auto
      next
        case False
        then show ?thesis using Suc.prems Cons nb \<open>suffix = []\<close> Suc.IH by simp
      qed
    next
      case False
      then show ?thesis
        using Suc.prems Cons nb Suc.IH by (auto split: sum.splits)
    qed
  qed
qed












lemma noisy_channel_of_locals:
  "noisy_channel word lm mm freedom max_attempts optimism =
     (case noisy_channel_locals word lm mm freedom max_attempts optimism of
        (Inl e, lm', mm') \<Rightarrow> (Inl e, lm', mm')
      | (Inr (baseline, heap', candidates', best_logprob'), lm', mm') \<Rightarrow>
          (Inr (collect_result candidates' best_logprob' freedom []), lm', mm'))"
  by (simp add: noisy_channel_def noisy_channel_locals_def Let_def
           split: prod.splits sum.splits)

lemma noisy_channel_value_of_locals:
  "noisy_channel_value word lm mm freedom max_attempts optimism =
     (case locals_value word lm mm freedom max_attempts optimism of
        Inl e \<Rightarrow> Inl e
      | Inr (baseline, heap', candidates', best_logprob') \<Rightarrow>
          Inr (collect_result candidates' best_logprob' freedom []))"
  by (simp add: noisy_channel_value_def locals_value_def Let_def
           split: prod.splits sum.splits)

lemma noisy_channel_locals_view:
  "fst (noisy_channel_locals word lm mm freedom max_attempts optimism) =
     locals_value word lm mm freedom max_attempts optimism"
proof -
  let ?q = "word @ '' ''"
  obtain ra lm1 where a0: "lang_single_log_proba lm '' '' ?q = (ra, lm1)"
    by (cases "lang_single_log_proba lm '' '' ?q")
  have a: "lang_single_log_proba lm '' '' ?q = (lang_slp lm '' '' ?q 0, lm1)"
    using lang_single_log_proba_view[of lm "'' ''" ?q] a0 by simp
  have g1: "lang_grown lm lm1"
    using lang_single_log_proba_view[of lm "'' ''" ?q] a0 by simp
  show ?thesis
  proof (cases "lang_slp lm '' '' ?q 0")
    case (Inl e)
    then show ?thesis
      using a by (simp add: noisy_channel_locals_def locals_value_def Let_def)
  next
    case (Inr x)
    note x = Inr
    obtain rb mm1 where b0: "missed_single_log_proba mm '' '' ?q None = (rb, mm1)"
      by (cases "missed_single_log_proba mm '' '' ?q None")
    have b: "missed_single_log_proba mm '' '' ?q None = (missed_slp_none mm '' '' ?q, mm1)"
      using missed_single_log_proba_none_view[of mm "'' ''" ?q] b0 by simp
    have g2: "missed_grown mm mm1"
      using missed_single_log_proba_none_view[of mm "'' ''" ?q] b0 by simp
    show ?thesis
    proof (cases "missed_slp_none mm '' '' ?q")
      case (Inl e)
      then show ?thesis
        using a b x by (simp add: noisy_channel_locals_def locals_value_def Let_def)
    next
      case (Inr y)
      note y = Inr
      let ?c = "cache_loop [0..<length ?q + 1] ?q lm1 mm1 []"
      obtain rc lm2 mm2 where c0: "?c = (rc, lm2, mm2)" by (cases ?c)
      have c: "?c = (cache_value [0..<length ?q + 1] ?q lm mm [], lm2, mm2)"
        using cache_loop_view[OF g1 g2, of "[0..<length ?q + 1]" ?q "[]"] c0 by simp
      have g3: "lang_grown lm lm2" "missed_grown mm mm2"
        using cache_loop_view[OF g1 g2, of "[0..<length ?q + 1]" ?q "[]"] c0 by simp_all
      show ?thesis
      proof (cases "cache_value [0..<length ?q + 1] ?q lm mm []")
        case (Inl e)
        then show ?thesis
          using a b x y c by (simp add: noisy_channel_locals_def locals_value_def Let_def)
      next
        case (Inr cache)
        let ?b = "- x + - y"
        let ?l = "noisy_channel_loop max_attempts
                    [(?b * optimism, '' '', ?q, [], ?b * optimism)]
                    [(?b, '' '' @ ?q, [], None, 0)] ?b lm2 mm2 freedom optimism cache"
        obtain rl lm3 mm3 where l0: "?l = (rl, lm3, mm3)" by (cases ?l)
        have l: "rl = loop_value max_attempts
                    [(?b * optimism, '' '', ?q, [], ?b * optimism)]
                    [(?b, '' '' @ ?q, [], None, 0)] ?b lm mm freedom optimism cache"
          using noisy_channel_loop_view[OF g3, of max_attempts
                  "[(?b * optimism, '' '', ?q, [], ?b * optimism)]"
                  "[(?b, '' '' @ ?q, [], None, 0)]" ?b freedom optimism cache] l0
          by simp
        show ?thesis
          using a b x y c Inr l0 l
          by (simp add: noisy_channel_locals_def locals_value_def Let_def
                   split: sum.splits prod.splits)
      qed
    qed
  qed
qed

lemma loop_value_best_le:
  "loop_value n heap cands best lm mm freedom optimism cache = Inr (heap', cands', best') \<Longrightarrow>
     best' \<le> best"
proof (induction n arbitrary: heap cands best)
  case 0
  then show ?case by simp
next
  case (Suc n)
  show ?case
  proof (cases heap)
    case Nil
    then show ?thesis using Suc.prems by simp
  next
    case (Cons x rest)
    obtain s P suf letter heur where x: "x = (s, P, suf, letter, heur)" by (cases x)
    show ?thesis
    proof (cases "suf = []")
      case True
      show ?thesis
      proof (cases "s \<le> best + freedom")
        case True
        have "loop_value n rest (cands @ [as_candidate x]) (if s < best then s else best)
                lm mm freedom optimism cache = Inr (heap', cands', best')"
          using Suc.prems Cons x \<open>suf = []\<close> True by simp
        then have "best' \<le> (if s < best then s else best)" by (rule Suc.IH)
        then show ?thesis by (simp split: if_splits)
      next
        case False
        have "loop_value n rest cands best lm mm freedom optimism cache =
                Inr (heap', cands', best')"
          using Suc.prems Cons x \<open>suf = []\<close> False by simp
        then show ?thesis by (rule Suc.IH)
      qed
    next
      case False
      obtain opts where
        o: "generate_options_value (s - heur) P suf lm mm optimism (Some cache) = Inr opts"
        using Suc.prems Cons x False by (auto split: sum.splits)
      have "loop_value n (push_options opts best freedom rest) cands best lm mm freedom optimism
              cache = Inr (heap', cands', best')"
        using Suc.prems Cons x False o by simp
      then show ?thesis by (rule Suc.IH)
    qed
  qed
qed

lemma fst_less_hypothesis: "fst x < fst y \<Longrightarrow> x < (y :: hypothesis)"
  by (simp add: less_prod_def)

lemma insort_before:
  "\<forall>y\<in>set E. x < y \<Longrightarrow> insort x (H @ E) = insort x H @ (E :: hypothesis list)"
proof (induction H)
  case Nil
  then show ?case by (cases E) auto
next
  case (Cons h H)
  then show ?case by simp
qed

lemma insort_after:
  "\<forall>h\<in>set H. h < y \<Longrightarrow> insort y (H @ E) = H @ insort y (E :: hypothesis list)"
  by (induction H) auto

lemma push_options_split:
  assumes "f1 \<le> f2"
      and "\<forall>x\<in>set H. fst x < B + f1" and "\<forall>y\<in>set E. B + f1 \<le> fst y"
  shows "\<exists>E'. push_options opts B f2 (H @ E) = push_options opts B f1 H @ E' \<and>
               (\<forall>y\<in>set E'. B + f1 \<le> fst y)"
  using assms(2,3)
proof (induction opts arbitrary: H E)
  case Nil
  then show ?case by simp
next
  case (Cons new_option opts)
  show ?case
  proof (cases "fst new_option < B + f1")
    case True
    then have lt2: "fst new_option < B + f2" using assms(1) by simp
    have "\<forall>y\<in>set E. new_option < y"
      using True Cons.prems(2) by (auto intro!: fst_less_hypothesis)
    then have eq: "insort new_option (H @ E) = insort new_option H @ E" by (rule insort_before)
    have "\<forall>x\<in>set (insort new_option H). fst x < B + f1"
      using True Cons.prems(1) by (auto simp: set_insort_key)
    from Cons.IH[OF this Cons.prems(2)] show ?thesis
      using True lt2 eq by (simp add: heappush_def)
  next
    case False
    note ge = False
    show ?thesis
    proof (cases "fst new_option < B + f2")
      case True
      have "\<forall>h\<in>set H. h < new_option"
        using ge Cons.prems(1) by (auto intro!: fst_less_hypothesis)
      then have eq: "insort new_option (H @ E) = H @ insort new_option E" by (rule insort_after)
      have "\<forall>y\<in>set (insort new_option E). B + f1 \<le> fst y"
        using ge Cons.prems(2) by (auto simp: set_insort_key)
      from Cons.IH[OF Cons.prems(1) this] show ?thesis
        using True ge eq by (simp add: heappush_def)
    next
      case False
      from Cons.IH[OF Cons.prems] show ?thesis
        using False ge by simp
    qed
  qed
qed

lemma push_options_below:
  "\<forall>x\<in>set H. fst x < B + f \<Longrightarrow> \<forall>x\<in>set (push_options opts B f H). fst x < B + f"
  by (auto simp: push_options_set)

lemma loop_value_lockstep:
  assumes "f1 \<le> f2"
  shows "\<forall>x\<in>set H. fst x < B + f1 \<Longrightarrow> \<forall>y\<in>set E. B + f1 \<le> fst y \<Longrightarrow>
         loop_value n (H @ E) cands B lm mm f2 optimism cache = Inr (heap2, cands2, B) \<Longrightarrow>
         \<exists>heap1 cands1 extra.
           loop_value n H cands B lm mm f1 optimism cache = Inr (heap1, cands1, B) \<and>
           cands2 = cands1 @ extra"
proof (induction n arbitrary: H E cands)
  case 0
  then show ?case by simp
next
  case (Suc n)
  show ?case
  proof (cases H)
    case Nil
    obtain extra where "cands2 = cands @ extra"
      using loop_value_candidates[OF Suc.prems(3)] by blast
    then show ?thesis using Nil by simp
  next
    case (Cons x rest)
    obtain s P suf letter heur where x: "x = (s, P, suf, letter, heur)" by (cases x)
    have sx: "s < B + f1" using Suc.prems(1) Cons x by simp
    have rest: "\<forall>x\<in>set rest. fst x < B + f1" using Suc.prems(1) Cons by simp
    show ?thesis
    proof (cases "suf = []")
      case True
      have a1: "s \<le> B + f1" and a2: "s \<le> B + f2" using sx assms by simp_all
      have run2: "loop_value n (rest @ E) (cands @ [as_candidate x]) (if s < B then s else B)
                    lm mm f2 optimism cache = Inr (heap2, cands2, B)"
        using Suc.prems(3) Cons x True a2 by simp
      have "B \<le> (if s < B then s else B)" using run2 by (rule loop_value_best_le)
      then have keep: "(if s < B then s else B) = B" by (simp split: if_splits)
      obtain heap1 cands1 extra where
        "loop_value n rest (cands @ [as_candidate x]) B lm mm f1 optimism cache =
           Inr (heap1, cands1, B)" "cands2 = cands1 @ extra"
        using Suc.IH[OF rest Suc.prems(2), of "cands @ [as_candidate x]"] run2 keep by auto
      then show ?thesis
        using Cons x True a1 keep by simp
    next
      case False
      obtain opts where
        o: "generate_options_value (s - heur) P suf lm mm optimism (Some cache) = Inr opts"
        using Suc.prems(3) Cons x False by (auto split: sum.splits)
      obtain E' where
        E': "push_options opts B f2 (rest @ E) = push_options opts B f1 rest @ E'"
            "\<forall>y\<in>set E'. B + f1 \<le> fst y"
        using push_options_split[OF assms rest Suc.prems(2)] by blast
      have below: "\<forall>x\<in>set (push_options opts B f1 rest). fst x < B + f1"
        using rest by (rule push_options_below)
      have run2: "loop_value n (push_options opts B f1 rest @ E') cands B lm mm f2 optimism cache =
                    Inr (heap2, cands2, B)"
        using Suc.prems(3) Cons x False o E'(1) by simp
      obtain heap1 cands1 extra where
        "loop_value n (push_options opts B f1 rest) cands B lm mm f1 optimism cache =
           Inr (heap1, cands1, B)" "cands2 = cands1 @ extra"
        using Suc.IH[OF below E'(2) run2] by auto
      then show ?thesis
        using Cons x False o by simp
    qed
  qed
qed

lemma loop_value_lockstep_root:
  assumes "f1 \<le> f2" and "query \<noteq> []"
      and "loop_value n [(r, P, query, letter, heur)] cands B lm mm f2 optimism cache =
             Inr (heap2, cands2, B)"
  shows "\<exists>heap1 cands1 extra.
           loop_value n [(r, P, query, letter, heur)] cands B lm mm f1 optimism cache =
             Inr (heap1, cands1, B) \<and>
           cands2 = cands1 @ extra"
proof (cases n)
  case 0
  then show ?thesis using assms(3) by simp
next
  case (Suc k)
  obtain opts where
    o: "generate_options_value (r - heur) P query lm mm optimism (Some cache) = Inr opts"
    using assms(2,3) Suc by (auto split: sum.splits)
  have e1: "\<forall>x\<in>set ([] :: hypothesis list). fst x < B + f1" by simp
  have e2: "\<forall>y\<in>set ([] :: hypothesis list). B + f1 \<le> fst y" by simp
  obtain E' where
    E': "push_options opts B f2 ([] @ []) = push_options opts B f1 [] @ E'"
        "\<forall>y\<in>set E'. B + f1 \<le> fst y"
    using push_options_split[OF assms(1) e1 e2] by blast
  have below: "\<forall>x\<in>set (push_options opts B f1 []). fst x < B + f1"
    using e1 by (rule push_options_below)
  have run2: "loop_value k (push_options opts B f1 [] @ E') cands B lm mm f2 optimism cache =
                Inr (heap2, cands2, B)"
    using assms(2,3) Suc o E'(1) by simp
  obtain heap1 cands1 extra where
    "loop_value k (push_options opts B f1 []) cands B lm mm f1 optimism cache =
       Inr (heap1, cands1, B)" "cands2 = cands1 @ extra"
    using loop_value_lockstep[OF assms(1) below E'(2) run2] by auto
  then show ?thesis
    using assms(2) Suc o by simp
qed

section \<open>Claims\<close>

subsection \<open>C1: what MissingLetterModel.single_log_proba sums\<close>

text \<open>
  Claim C1 says that \<^verbatim>\<open>single_log_proba(context, continuation, actual)\<close> adds \<open>ln p\<close>
  for a position that \<^verbatim>\<open>actual\<close> marks as deleted and \<open>ln (1 - p)\<close> for a position it
  keeps, \<open>p\<close> being \<^verbatim>\<open>predict_proba\<close> of the original symbol, and that it adds
  \<open>ln (1 - p)\<close> everywhere when \<^verbatim>\<open>actual\<close> is omitted. The code does the opposite. For the
  model of the notebook, fitted on \<^verbatim>\<open>('abracadabra', 'abr-c-d-br-')\<close> with the default
  smoothing, the probability that an \<^verbatim>\<open>a\<close> is deleted is \<open>43/60\<close>; for the deleted
  \<^verbatim>\<open>a\<close> the method returns \<open>ln (1 - 43/60)\<close>, and with \<^verbatim>\<open>actual\<close> omitted it returns
  \<open>ln (43/60)\<close>.
\<close>

theorem single_log_proba_swaps_deleted_and_kept:
  "fst (missed_predict_proba (missed_fit 0 (3/10) 1 [(''abracadabra'', ''abr-c-d-br-'')]) [] CHR ''a'')
     = Inr (43/60) \<and>
   fst (missed_single_log_proba (missed_fit 0 (3/10) 1 [(''abracadabra'', ''abr-c-d-br-'')])
          [] ''a'' (Some ''-'')) = Inr (ln (1 - 43/60)) \<and>
   fst (missed_single_log_proba (missed_fit 0 (3/10) 1 [(''abracadabra'', ''abr-c-d-br-'')])
          [] ''a'' None) = Inr (ln (43/60)) \<and>
   ln (1 - 43/60 :: real) \<noteq> ln (43/60)"
  by (simp add: missed_predict_proba_fst missed_single_log_proba_fst missed_eval)

subsection \<open>C5: predict_proba of the language model is a distribution\<close>

text \<open>
  Claim C5, as stated, fails: for a model fitted on a non-empty corpus,
  \<^verbatim>\<open>predict_proba\<close> need not sum to 1 nor be positive. Fitted with the default
  parameters on the corpus \<^verbatim>\<open>'a'\<close>, which is no longer than the order, the model has an
  empty vocabulary and \<^verbatim>\<open>predict_proba\<close> is the empty Series, of sum 0. Fitted with
  \<^verbatim>\<open>smoothing=0\<close> on \<^verbatim>\<open>'aba'\<close>, it gives probability 0 to \<^verbatim>\<open>a\<close> after \<^verbatim>\<open>a\<close>.
\<close>

theorem predict_proba_counterexample:
  "fst (lang_predict_proba (lang_fit 1 1 (1/1000) ''a'') ''a'') = Inr [] \<and>
   series_sum [] \<noteq> 1 \<and>
   fst (lang_predict_proba (lang_fit 1 0 0 ''aba'') ''a'') = Inr [(CHR ''a'', 0), (CHR ''b'', 1)]"
  by (simp add: lang_predict_proba_fst lang_eval)

text \<open>
  Claim C5, amended: for a model with positive smoothing fitted on a corpus longer than
  its order, and for every context, \<^verbatim>\<open>predict_proba\<close> returns a Series over the
  vocabulary whose values sum to 1 and are all strictly positive.
\<close>

theorem lang_predict_proba_is_distribution:
  assumes "0 < sm" and "ord < length corpus"
  shows "\<exists>pr. fst (lang_predict_proba (lang_fit ord sm rc corpus) ctx) = Inr pr \<and>
              map fst pr = vocabulary_attr (lang_fit ord sm rc corpus) \<and>
              series_sum pr = 1 \<and> list_all (\<lambda>v. 0 < v) (map snd pr)"
proof -
  let ?m = "lang_fit ord sm rc corpus"
  have "drop ord corpus \<noteq> []" using assms(2) by simp
  then have "set (vocabulary_attr ?m) \<noteq> {}"
    by (simp add: lang_fit_vocabulary)
  then have ne: "vocabulary_attr ?m \<noteq> []" by auto
  have sm: "0 < smoothing ?m" using assms(1) by (simp add: lang_fit_fields)
  show ?thesis
    using lang_probs_wf[OF lang_fit_wf sm ne, of ctx]
    by (auto simp: lang_predict_proba_fst series_pos_def)
qed

text \<open>The language model of the notebook, at the context of its example.\<close>

theorem lang_predict_proba_is_distribution_witness:
  "(0::real) < 1 \<and> 1 < length '' abracadabra '' \<and>
   (\<exists>pr. fst (lang_predict_proba (lang_fit 1 1 (1/1000) '' abracadabra '') '' bra'') = Inr pr \<and>
         map fst pr = vocabulary_attr (lang_fit 1 1 (1/1000) '' abracadabra '') \<and>
         series_sum pr = 1 \<and> list_all (\<lambda>v. 0 < v) (map snd pr))"
  using lang_predict_proba_is_distribution[of 1 1 "'' abracadabra ''" "1/1000" "'' bra''"]
  by simp

subsection \<open>C7: probabilities are positive and costs finite\<close>

text \<open>
  Claim C7, as stated for any smoothing constants, fails. With
  \<^verbatim>\<open>smoothing_missed = smoothing_total = 1\<close> the deletion model gives probability 1, so
  that the cost \<open>- ln (1 - p)\<close> of a kept letter is the logarithm of 0; with
  \<^verbatim>\<open>smoothing_missed = 0\<close> it gives probability 0.
\<close>

theorem probabilities_counterexample:
  "fst (missed_predict_proba (missed_fit 0 1 1 []) [] CHR ''a'') = Inr 1 \<and>
   fst (missed_predict_proba (missed_fit 0 0 1 []) [] CHR ''a'') = Inr 0"
  by (simp add: missed_predict_proba_fst missed_eval)

text \<open>
  Claim C7, amended: when the smoothing of the language model is positive and
  \<open>0 < smoothing_missed < smoothing_total\<close>, every probability of a fitted language model
  is strictly positive and every probability \<open>p\<close> of a fitted deletion model has
  \<open>0 < p\<close> and \<open>0 < 1 - p\<close>: each logarithm that \<^verbatim>\<open>generate_options\<close> takes is that
  of a positive number, so each cost is finite.
\<close>

theorem probabilities_positive:
  assumes "0 < sm" and "0 < sm_missed" and "sm_missed < sm_total"
  shows "(\<exists>pr. fst (lang_predict_proba (lang_fit ord sm rc corpus) ctx) = Inr pr \<and>
               list_all (\<lambda>v. 0 < v) (map snd pr)) \<and>
         (\<exists>p. fst (missed_predict_proba (missed_fit mord sm_missed sm_total pairs) ctx' c) = Inr p \<and>
              0 < p \<and> 0 < 1 - p)"
proof -
  have sm: "0 < smoothing (lang_fit ord sm rc corpus)" using assms(1) by (simp add: lang_fit_fields)
  have a: "\<exists>pr. fst (lang_predict_proba (lang_fit ord sm rc corpus) ctx) = Inr pr \<and>
               list_all (\<lambda>v. 0 < v) (map snd pr)"
    using lang_probs_pos[OF lang_fit_wf sm, of ctx]
    by (auto simp: lang_predict_proba_fst series_pos_def)
  have b: "\<exists>p. fst (missed_predict_proba (missed_fit mord sm_missed sm_total pairs) ctx' c) = Inr p \<and>
              0 < p \<and> 0 < 1 - p"
    using missed_proba_fit_bounds[OF assms(2,3), of mord pairs ctx' c]
    by (auto simp: missed_predict_proba_fst)
  show ?thesis using a b by blast
qed

text \<open>The two models of the notebook, with their default smoothing.\<close>

theorem probabilities_positive_witness:
  "(0::real) < 1 \<and> (0::real) < 3/10 \<and> (3/10::real) < 1 \<and>
   (\<exists>pr. fst (lang_predict_proba (lang_fit 1 1 (1/1000) '' abracadabra '') '' bra'') = Inr pr \<and>
         list_all (\<lambda>v. 0 < v) (map snd pr)) \<and>
   (\<exists>p. fst (missed_predict_proba (missed_fit 0 (3/10) 1 [(''abracadabra'', ''abr-c-d-br-'')])
               ''abr'' CHR ''a'') = Inr p \<and> 0 < p \<and> 0 < 1 - p)"
  using probabilities_positive[of 1 "3/10" 1 1 "1/1000" "'' abracadabra ''" "'' bra''" 0
          "[(''abracadabra'', ''abr-c-d-br-'')]" "''abr''" "CHR ''a''"]
  by simp

subsection \<open>C9: a symbol outside the vocabulary\<close>

text \<open>
  Claim C9: for every well-formed (in particular every fitted) language model, every
  deletion model and every word with a symbol outside the vocabulary of the language
  model, \<^verbatim>\<open>noisy_channel\<close> raises \<^verbatim>\<open>KeyError\<close>: it returns no result mapping. The
  error comes from the first statement that scores the query,
  \<^verbatim>\<open>lang_model.single_log_proba(prefix, query)\<close>, where \<^verbatim>\<open>predict_proba(context)[token]\<close>
  looks the symbol up in a Series indexed by the vocabulary.
\<close>

theorem noisy_channel_unknown_symbol:
  assumes "lang_wf lm" and "c \<in> set word" and "c \<notin> set (vocabulary_attr lm)"
  shows "fst (noisy_channel word lm mm freedom max_attempts optimism) = Inl KeyError"
proof -
  have "\<exists>t\<in>set (word @ '' ''). t \<notin> set (vocabulary_attr lm)"
    using assms(2,3) by auto
  then have "lang_slp lm '' '' (word @ '' '') 0 = Inl KeyError"
    using lang_slp_KeyError[OF assms(1)] by blast
  then show ?thesis
    using noisy_channel_view[of word lm mm freedom max_attempts optimism]
    by (simp add: noisy_channel_value_def Let_def)
qed

text \<open>
  The language model of the notebook, fitted on \<^verbatim>\<open>' abracadabra '\<close>, and the word
  \<^verbatim>\<open>'brx'\<close>, whose \<^verbatim>\<open>x\<close> is not in the vocabulary.
\<close>

theorem noisy_channel_unknown_symbol_witness:
  "lang_wf (lang_fit 1 1 (1/1000) '' abracadabra '') \<and>
   CHR ''x'' \<in> set ''brx'' \<and>
   CHR ''x'' \<notin> set (vocabulary_attr (lang_fit 1 1 (1/1000) '' abracadabra '')) \<and>
   fst (noisy_channel ''brx'' (lang_fit 1 1 (1/1000) '' abracadabra '')
          (missed_fit 0 (3/10) 1 [(''abracadabra'', ''abr-c-d-br-'')]) 2 1000 (1/2)) = Inl KeyError"
proof -
  have wf: "lang_wf (lang_fit 1 1 (1/1000) '' abracadabra '')" by (rule lang_fit_wf)
  have x: "CHR ''x'' \<in> set ''brx''" by simp
  have v: "CHR ''x'' \<notin> set (vocabulary_attr (lang_fit 1 1 (1/1000) '' abracadabra ''))"
    by (simp add: lang_fit_vocabulary)
  show ?thesis
    using wf x v noisy_channel_unknown_symbol[OF wf x v] by blast
qed

subsection \<open>C10: no expansion of an empty suffix\<close>

text \<open>
  Claim C10: \<^verbatim>\<open>noisy_channel\<close> never fails with the \<^verbatim>\<open>IndexError\<close> that \<^verbatim>\<open>suffix[0]\<close>
  raises on an empty suffix, whatever the word, the models and the parameters. The main
  loop passes a hypothesis to \<^verbatim>\<open>generate_options\<close> only in the branch where its suffix
  is not empty (a hypothesis with an empty suffix is a leaf and is never expanded), and
  no other operation of the program raises \<^verbatim>\<open>IndexError\<close>.
\<close>

theorem noisy_channel_never_IndexError:
  "fst (noisy_channel word lm mm freedom max_attempts optimism) \<noteq> Inl IndexError"
proof -
  have "noisy_channel_value word lm mm freedom max_attempts optimism \<noteq> Inl IndexError"
    using lang_slp_not_IndexError[of lm "'' ''" "word @ '' ''" 0]
          missed_slp_not_IndexError[of mm "'' ''" "zip (word @ '' '') (word @ '' '')" 0]
          cache_value_not_IndexError[of _ "word @ '' ''" lm mm "[]"]
          loop_value_not_IndexError[of max_attempts _ _ _ lm mm freedom optimism]
    by (auto simp: noisy_channel_value_def missed_slp_none_def Let_def split: sum.splits)
  then show ?thesis
    using noisy_channel_view[of word lm mm freedom max_attempts optimism] by simp
qed

text \<open>
  The fault that the guard excludes is real: called on an empty suffix,
  \<^verbatim>\<open>generate_options\<close> raises \<^verbatim>\<open>IndexError\<close> once it reaches the letter \<^verbatim>\<open>''\<close>.
\<close>

theorem generate_options_empty_suffix:
  "fst (generate_options 0 '' '' [] (lang_fit 0 1 0 '' '') (missed_fit 0 (3/10) 1 []) (1/2)
          (Some [(0, 0)])) = Inl IndexError"
proof -
  have g: "lang_grown (lang_fit 0 1 0 '' '') (lang_fit 0 1 0 '' '')"
          "missed_grown (missed_fit 0 (3/10) 1 []) (missed_fit 0 (3/10) 1 [])"
    by (simp_all add: lang_grown_refl missed_grown_refl)
  show ?thesis
    using generate_options_view[OF g, of 0 "'' ''" "[]" "1/2" "Some [(0, 0)]"]
    by (simp add: generate_options_value_def option_value_def option_branch_value_def
          option_suffix_cost_value_def cache_truthy_def cache_getitem_def lang_sp_def
          lang_eval missed_eval)
qed

subsection \<open>C8: what a search does to the models\<close>

text \<open>
  Claim C8, as stated, fails: a call changes the count tables. The tables are
  \<^verbatim>\<open>defaultdict\<close>s, and reading a context they do not have stores a fresh empty
  \<^verbatim>\<open>Counter\<close> under it. For the models and the call of the notebook,
  \<^verbatim>\<open>noisy_channel('brc', lang_model, missed_model, freedom=2.0, optimism=0.5)\<close>, the
  table \<^verbatim>\<open>counter_\<close> of the language model has no key \<^verbatim>\<open>''\<close> before the call and has one
  after it (the cache is computed from the empty context).
\<close>

theorem noisy_channel_changes_tables:
  "counter_attr (lang_fit 1 1 (1/1000) '' abracadabra '') [] = None \<and>
   counter_attr (fst (snd (noisy_channel ''brc'' (lang_fit 1 1 (1/1000) '' abracadabra '')
      (missed_fit 0 (3/10) 1 [(''abracadabra'', ''abr-c-d-br-'')]) 2 1000 (1/2)))) [] \<noteq> None"
proof -
  let ?lm = "lang_fit 1 1 (1/1000) '' abracadabra ''"
  let ?mm = "missed_fit 0 (3/10) 1 [(''abracadabra'', ''abr-c-d-br-'')]"
  have before: "counter_attr ?lm [] = None"
    by (simp add: lang_fit_counter enumerate_eq_zip dd_increment_def dd_getitem_def)
  have "set (''brc'' @ '' '') \<subseteq> set (vocabulary_attr ?lm)"
    by (simp add: lang_fit_vocabulary)
  then obtain a where a: "lang_slp ?lm '' '' (''brc'' @ '' '') 0 = Inr a"
    using lang_slp_ok[OF lang_fit_wf] by blast
  have "0 < smoothing_total ?mm" by (simp add: missed_fit_fields)
  then obtain b where b: "missed_slp_none ?mm '' '' (''brc'' @ '' '') = Inr b"
    using missed_slp_ok unfolding missed_slp_none_def by blast
  have "counter_attr (fst (snd (noisy_channel ''brc'' ?lm ?mm 2 1000 (1/2))))
          (local_context (lang_order ?lm) []) \<noteq> None"
    by (rule noisy_channel_touches[OF a b])
  then show ?thesis using before by (simp add: lang_fit_fields local_context_def)
qed

text \<open>
  Claim C8, amended: a call to \<^verbatim>\<open>noisy_channel\<close> leaves the parameters, the vocabulary
  and the unigram counts of the language model (and of every model of its backoff
  chain) and the parameters of the deletion model exactly as they were; each count
  table keeps every entry it had and gains at most fresh empty counters under contexts
  it did not have (\<open>lang_grown\<close>, \<open>missed_grown\<close>). Hence every count and every
  probability that the models give is the same after the call as before it.
\<close>

theorem noisy_channel_only_grows_tables:
  "lang_grown lm (fst (snd (noisy_channel word lm mm freedom max_attempts optimism))) \<and>
   missed_grown mm (snd (snd (noisy_channel word lm mm freedom max_attempts optimism))) \<and>
   fst (get_counts (fst (snd (noisy_channel word lm mm freedom max_attempts optimism))) ctx)
     = fst (get_counts lm ctx) \<and>
   fst (missed_predict_proba (snd (snd (noisy_channel word lm mm freedom max_attempts optimism)))
          ctx c)
     = fst (missed_predict_proba mm ctx c)"
proof -
  note v = noisy_channel_view[of word lm mm freedom max_attempts optimism]
  have g: "lang_grown lm (fst (snd (noisy_channel word lm mm freedom max_attempts optimism)))"
          "missed_grown mm (snd (snd (noisy_channel word lm mm freedom max_attempts optimism)))"
    using v by simp_all
  show ?thesis
    using g lang_counts_grown[OF g(1)] missed_proba_grown[OF g(2)]
    by (simp add: get_counts_fst missed_predict_proba_fst)
qed

text \<open>The models and the call of the notebook.\<close>

theorem noisy_channel_only_grows_tables_witness:
  "lang_grown (lang_fit 1 1 (1/1000) '' abracadabra '')
     (fst (snd (noisy_channel ''brc'' (lang_fit 1 1 (1/1000) '' abracadabra '')
        (missed_fit 0 (3/10) 1 [(''abracadabra'', ''abr-c-d-br-'')]) 2 1000 (1/2)))) \<and>
   missed_grown (missed_fit 0 (3/10) 1 [(''abracadabra'', ''abr-c-d-br-'')])
     (snd (snd (noisy_channel ''brc'' (lang_fit 1 1 (1/1000) '' abracadabra '')
        (missed_fit 0 (3/10) 1 [(''abracadabra'', ''abr-c-d-br-'')]) 2 1000 (1/2))))"
  using noisy_channel_only_grows_tables[of "lang_fit 1 1 (1/1000) '' abracadabra ''" "''brc''"
          "missed_fit 0 (3/10) 1 [(''abracadabra'', ''abr-c-d-br-'')]" 2 1000 "1/2"]
  by simp

subsection \<open>C3: the children of a hypothesis\<close>



subsection \<open>C6: the result as a function of freedom\<close>

text \<open>
  Claim C6, as stated, fails. Take the language model of order 1 fitted on
  \<^verbatim>\<open>' a a a a a a '\<close> with \<^verbatim>\<open>smoothing=1\<close> and \<^verbatim>\<open>recursive=0\<close>, the deletion model with
  \<^verbatim>\<open>smoothing_missed=0.25\<close>, \<^verbatim>\<open>smoothing_total=1\<close> fitted on no pairs, the empty word,
  \<^verbatim>\<open>optimism=1\<close> and \<^verbatim>\<open>max_attempts=1000\<close>. With \<^verbatim>\<open>freedom=0.1\<close> the search returns the
  phrase \<^verbatim>\<open>''\<close> alone; with \<^verbatim>\<open>freedom=0.3\<close> it returns the phrase \<^verbatim>\<open>'a'\<close> alone. The
  larger freedom lets the hypothesis \<^verbatim>\<open>' a'\<close> into the queue; its leaf \<^verbatim>\<open>' a '\<close> scores
  better than every other, \<^verbatim>\<open>best_logprob\<close> drops, and the window of the final filter
  moves below the score of \<^verbatim>\<open>''\<close>.
\<close>

theorem freedom_not_monotone:
  "fst (noisy_channel [] (lang_fit 1 1 0 '' a a a a a a '') (missed_fit 0 (1/4) 1 [])
          (1/10) 1000 1) = Inr [([], 3 * ln 2 - ln (3/4))] \<and>
   fst (noisy_channel [] (lang_fit 1 1 0 '' a a a a a a '') (missed_fit 0 (1/4) 1 [])
          (3/10) 1000 1) = Inr [(''a'', 2 * ln 2 - 2 * ln (7/8) - ln (3/4))]"
proof -
  let ?lm = "lang_fit 1 1 0 '' a a a a a a ''"
  let ?mm = "missed_fit 0 (1/4) 1 []"
  have small: "noisy_channel_value [] ?lm ?mm (1/10) 1000 1 = Inr [([], 3 * ln 2 - ln (3/4))]"
    using ln2_bounds ln_7_8 ln_3_4
    by (simp add: search_eval lang_eval missed_eval ln_half ln_quarter ln_eighth numeral_eq_Suc)
  have large: "noisy_channel_value [] ?lm ?mm (3/10) 1000 1 =
                 Inr [(''a'', 2 * ln 2 - 2 * ln (7/8) - ln (3/4))]"
    using ln2_bounds ln_7_8 ln_3_4
    by (simp add: search_eval lang_eval missed_eval ln_half ln_quarter ln_eighth numeral_eq_Suc)
  show ?thesis
    using small large noisy_channel_view[of "[]" ?lm ?mm _ 1000 1] by simp
qed

text \<open>
  Claim C6, amended: the returned phrases are nested whenever the search with the
  larger freedom ends without having improved on the baseline. If \<open>f1 \<le> f2\<close> and the
  call with freedom \<open>f2\<close> ends its main loop with \<^verbatim>\<open>best_logprob\<close> still equal to the
  score of the query itself (no leaf scored better), then the call with freedom \<open>f1\<close>
  returns too, and every phrase it returns is returned by the call with \<open>f2\<close>; the
  models, the word, \<^verbatim>\<open>max_attempts\<close> and \<^verbatim>\<open>optimism\<close> are the same and arbitrary. In the
  counterexample above the search with the larger freedom does improve on the
  baseline.
\<close>

theorem freedom_monotone_while_baseline_is_best:
  assumes "f1 \<le> f2"
      and "fst (noisy_channel_locals word lm mm f2 max_attempts optimism) =
             Inr (baseline, heap2, candidates2, baseline)"
  shows "\<exists>result1 result2.
           fst (noisy_channel word lm mm f1 max_attempts optimism) = Inr result1 \<and>
           fst (noisy_channel word lm mm f2 max_attempts optimism) = Inr result2 \<and>
           fst ` set result1 \<subseteq> fst ` set result2"
proof -
  let ?q = "word @ '' ''"
  have lv: "locals_value word lm mm f2 max_attempts optimism =
              Inr (baseline, heap2, candidates2, baseline)"
    using assms(2) by (simp add: noisy_channel_locals_view)
  obtain a where a: "lang_slp lm '' '' ?q 0 = Inr a"
    using lv by (auto simp: locals_value_def Let_def split: sum.splits)
  obtain b where b: "missed_slp_none mm '' '' ?q = Inr b"
    using lv a by (auto simp: locals_value_def Let_def split: sum.splits)
  obtain cache where c: "cache_value [0..<length ?q + 1] ?q lm mm [] = Inr cache"
    using lv a b by (auto simp: locals_value_def Let_def split: sum.splits)
  let ?B = "- a + - b"
  let ?root = "(?B * optimism, '' '', ?q, [], ?B * optimism) :: hypothesis"
  let ?base = "(?B, '' '' @ ?q, [], None, 0) :: candidate"
  have run2: "loop_value max_attempts [?root] [?base] ?B lm mm f2 optimism cache =
                Inr (heap2, candidates2, ?B)" and B: "baseline = ?B"
    using lv a b c by (auto simp: locals_value_def Let_def split: sum.splits)
  have ne: "?q \<noteq> []" by simp
  obtain heap1 candidates1 extra where
    run1: "loop_value max_attempts [?root] [?base] ?B lm mm f1 optimism cache =
             Inr (heap1, candidates1, ?B)"
    and ext: "candidates2 = candidates1 @ extra"
    using loop_value_lockstep_root[OF assms(1) ne run2] by blast
  have r1: "noisy_channel_value word lm mm f1 max_attempts optimism =
              Inr (collect_result candidates1 ?B f1 [])"
    using a b c run1 by (simp add: noisy_channel_value_def Let_def)
  have r2: "noisy_channel_value word lm mm f2 max_attempts optimism =
              Inr (collect_result candidates2 ?B f2 [])"
    using a b c run2 by (simp add: noisy_channel_value_def Let_def)
  have "{c \<in> set candidates1. fst c \<le> ?B + f1} \<subseteq> {c \<in> set candidates2. fst c \<le> ?B + f2}"
    using assms(1) ext by auto
  then have sub: "fst ` set (collect_result candidates1 ?B f1 []) \<subseteq>
                  fst ` set (collect_result candidates2 ?B f2 [])"
    unfolding collect_result_keys by (intro Un_mono image_mono subset_refl)
  show ?thesis
    using r1 r2 sub noisy_channel_view[of word lm mm f1 max_attempts optimism]
      noisy_channel_view[of word lm mm f2 max_attempts optimism]
    by simp
qed

text \<open>
  The language model of order 0 fitted on \<^verbatim>\<open>' '\<close>, the deletion model with
  \<^verbatim>\<open>smoothing_missed=0.5\<close>, \<^verbatim>\<open>smoothing_total=1\<close> fitted on no pairs, the empty word,
  \<^verbatim>\<open>optimism=1\<close>, \<^verbatim>\<open>max_attempts=1000\<close>, \<open>f1 = 0.1\<close> and \<open>f2 = 1.1\<close>: no leaf scores below
  the baseline \<open>ln 2\<close>; the first search returns the phrase \<^verbatim>\<open>''\<close>, the second the
  phrases \<^verbatim>\<open>''\<close> and \<^verbatim>\<open>' '\<close>.
\<close>

theorem freedom_monotone_while_baseline_is_best_witness:
  "(1/10 :: real) \<le> 11/10 \<and>
   fst (noisy_channel_locals [] (lang_fit 0 1 0 '' '') (missed_fit 0 (1/2) 1 []) (11/10) 1000 1) =
     Inr (ln 2, [],
          [(ln 2, ''  '', [], None, 0), (ln 2, ''  '', [], Some [], 0),
           (2 * ln 2, ''   '', [], Some [], 0)],
          ln 2) \<and>
   (\<exists>result1 result2.
      fst (noisy_channel [] (lang_fit 0 1 0 '' '') (missed_fit 0 (1/2) 1 []) (1/10) 1000 1) =
        Inr result1 \<and>
      fst (noisy_channel [] (lang_fit 0 1 0 '' '') (missed_fit 0 (1/2) 1 []) (11/10) 1000 1) =
        Inr result2 \<and>
      fst ` set result1 \<subseteq> fst ` set result2) \<and>
   fst (noisy_channel [] (lang_fit 0 1 0 '' '') (missed_fit 0 (1/2) 1 []) (1/10) 1000 1) =
     Inr [([], ln 2)] \<and>
   fst (noisy_channel [] (lang_fit 0 1 0 '' '') (missed_fit 0 (1/2) 1 []) (11/10) 1000 1) =
     Inr [([], ln 2), ('' '', 2 * ln 2)]"
proof -
  let ?lm = "lang_fit 0 1 0 '' ''"
  let ?mm = "missed_fit 0 (1/2) 1 []"
  have h1: "(1/10 :: real) \<le> 11/10" by simp
  have "locals_value [] ?lm ?mm (11/10) 1000 1 =
          Inr (ln 2, [],
               [(ln 2, ''  '', [], None, 0), (ln 2, ''  '', [], Some [], 0),
                (2 * ln 2, ''   '', [], Some [], 0)],
               ln 2)"
    using ln2_bounds
    by (simp add: locals_value_def search_eval lang_eval missed_eval ln_half numeral_eq_Suc)
  then have h2: "fst (noisy_channel_locals [] ?lm ?mm (11/10) 1000 1) =
          Inr (ln 2, [],
               [(ln 2, ''  '', [], None, 0), (ln 2, ''  '', [], Some [], 0),
                (2 * ln 2, ''   '', [], Some [], 0)],
               ln 2)"
    by (simp add: noisy_channel_locals_view)
  have "noisy_channel_value [] ?lm ?mm (1/10) 1000 1 = Inr [([], ln 2)]"
    using ln2_bounds
    by (simp add: search_eval lang_eval missed_eval ln_half numeral_eq_Suc)
  then have r1: "fst (noisy_channel [] ?lm ?mm (1/10) 1000 1) = Inr [([], ln 2)]"
    using noisy_channel_view[of "[]" ?lm ?mm "1/10" 1000 1] by simp
  have "noisy_channel_value [] ?lm ?mm (11/10) 1000 1 = Inr [([], ln 2), ('' '', 2 * ln 2)]"
    using ln2_bounds
    by (simp add: search_eval lang_eval missed_eval ln_half numeral_eq_Suc)
  then have r2: "fst (noisy_channel [] ?lm ?mm (11/10) 1000 1) =
                   Inr [([], ln 2), ('' '', 2 * ln 2)]"
    using noisy_channel_view[of "[]" ?lm ?mm "11/10" 1000 1] by simp
  show ?thesis
    using h1 h2 r1 r2 freedom_monotone_while_baseline_is_best[OF h1 h2]
    by blast
qed

subsection \<open>C4: the cache of suffix costs\<close>

text \<open>
  Claim C4 says that the cache holds, under each length \<open>L\<close>, the cost of the
  remaining suffix of length \<open>L\<close> of the padded query: the negative log-probability of
  generating it from the empty context, plus that of its containing no deletion. The
  code computes \<^verbatim>\<open>future_suffix = query[:i]\<close>, the \<^emph>\<open>first\<close> \<open>i\<close> symbols of the query, and
  its deletion part comes from \<^verbatim>\<open>single_log_proba\<close> with \<^verbatim>\<open>actual\<close> omitted, which adds
  \<open>ln p\<close> where no deletion means \<open>ln (1 - p)\<close> (see C1). For the language model of
  order 0 fitted on \<^verbatim>\<open>' abracadabra '\<close>, the deletion model of the notebook and the
  query \<^verbatim>\<open>'a '\<close>, the entry under 1 is \<open>- ln (6/19) - ln (43/60)\<close>, computed from \<^verbatim>\<open>'a'\<close>.
  The suffix of length 1 is \<^verbatim>\<open>' '\<close>, of log-probability \<open>ln (3/19)\<close> and deletion
  probability \<open>3/10\<close>: the claim gives \<open>- ln (3/19) - ln (1 - 3/10)\<close>.
\<close>

theorem cache_is_computed_from_prefixes:
  "fst (cache_loop [0..<length ''a '' + 1] ''a '' (lang_fit 0 1 (1/1000) '' abracadabra '')
          (missed_fit 0 (3/10) 1 [(''abracadabra'', ''abr-c-d-br-'')]) []) =
     Inr [(0, 0), (1, - ln (6/19) - ln (43/60)),
          (2, - ln (6/19) - ln (3/19) + (- ln (43/60) - ln (3/10)))] \<and>
   fst (lang_single_log_proba (lang_fit 0 1 (1/1000) '' abracadabra '') [] ''a'') = Inr (ln (6/19)) \<and>
   fst (lang_single_log_proba (lang_fit 0 1 (1/1000) '' abracadabra '') [] '' '') = Inr (ln (3/19)) \<and>
   fst (missed_predict_proba (missed_fit 0 (3/10) 1 [(''abracadabra'', ''abr-c-d-br-'')]) [] CHR ''a'')
     = Inr (43/60) \<and>
   fst (missed_predict_proba (missed_fit 0 (3/10) 1 [(''abracadabra'', ''abr-c-d-br-'')]) [] CHR '' '')
     = Inr (3/10) \<and>
   - ln (6/19) - ln (43/60) \<noteq> - ln (3/19) - ln (1 - 3/10 :: real)"
proof -
  let ?lm = "lang_fit 0 1 (1/1000) '' abracadabra ''"
  let ?mm = "missed_fit 0 (3/10) 1 [(''abracadabra'', ''abr-c-d-br-'')]"
  have v: "cache_value [0..<length ''a '' + 1] ''a '' ?lm ?mm [] =
     Inr [(0, 0), (1, - ln (6/19) - ln (43/60)),
          (2, - ln (6/19) - ln (3/19) + (- ln (43/60) - ln (3/10)))]"
    by (simp add: upt_rec lang_eval missed_eval)
  have c: "fst (cache_loop [0..<length ''a '' + 1] ''a '' ?lm ?mm []) =
             cache_value [0..<length ''a '' + 1] ''a '' ?lm ?mm []"
    using cache_loop_view[OF lang_grown_refl missed_grown_refl] by blast
  have a: "fst (lang_single_log_proba ?lm [] ''a'') = Inr (ln (6/19))"
    by (simp add: lang_single_log_proba_fst lang_eval)
  have s: "fst (lang_single_log_proba ?lm [] '' '') = Inr (ln (3/19))"
    by (simp add: lang_single_log_proba_fst lang_eval)
  have pa: "fst (missed_predict_proba ?mm [] CHR ''a'') = Inr (43/60)"
    by (simp add: missed_predict_proba_fst missed_eval)
  have ps: "fst (missed_predict_proba ?mm [] CHR '' '') = Inr (3/10)"
    by (simp add: missed_predict_proba_fst missed_eval)
  have "ln (6/19) + ln (43/60) \<noteq> ln (3/19) + ln (7/10 :: real)"
    by (rule ln_sum_neq) simp_all
  then have ne: "- ln (6/19) - ln (43/60) \<noteq> - ln (3/19) - ln (1 - 3/10 :: real)"
    by simp
  show ?thesis using v c a s pa ps ne by simp
qed

subsection \<open>C2: the baseline candidate\<close>

text \<open>
  Claim C2 has two parts. The second, that the baseline score seeded into the
  candidates is the cost of the query with no deletion assumed, fails in the code, by
  the defect of C1: the deletion part of the baseline is
  \<^verbatim>\<open>-missed_model.single_log_proba(prefix, query)\<close>, which adds \<open>- ln p\<close> for each symbol
  where a kept symbol costs \<open>- ln (1 - p)\<close>. For the language model of order 0 fitted on
  \<^verbatim>\<open>' abracadabra '\<close>, the deletion model of the notebook and the word \<^verbatim>\<open>'a'\<close>, the
  baseline (returned as it is when \<^verbatim>\<open>max_attempts=0\<close>) is
  \<open>- ln (6/19) - ln (3/19) - ln (43/60) - ln (3/10)\<close>. The hypothesis of the same
  phrase that the search builds by consuming the two symbols of the query, through the
  last option of \<^verbatim>\<open>generate_options\<close> twice, has the cost
  \<open>- ln (6/19) - ln (3/19) - ln (17/60) - ln (7/10)\<close>.
\<close>

theorem baseline_differs_from_zero_deletion_cost:
  "fst (noisy_channel ''a'' (lang_fit 0 1 (1/1000) '' abracadabra '')
          (missed_fit 0 (3/10) 1 [(''abracadabra'', ''abr-c-d-br-'')]) 2 0 (1/2)) =
     Inr [(''a'', - ln (6/19) - ln (3/19) + (- ln (43/60) - ln (3/10)))] \<and>
   map_sum id last
     (fst (generate_options 0 '' '' ''a '' (lang_fit 0 1 (1/1000) '' abracadabra '')
             (missed_fit 0 (3/10) 1 [(''abracadabra'', ''abr-c-d-br-'')]) (1/2)
             (Some [(0, 0), (1, - ln (6/19) - ln (43/60)),
                    (2, - ln (6/19) - ln (3/19) + (- ln (43/60) - ln (3/10)))]))) =
     Inr (- ln (6/19) - ln (17/60) + (- ln (6/19) - ln (43/60)) * (1/2), '' a'', '' '', [],
          (- ln (6/19) - ln (43/60)) * (1/2)) \<and>
   map_sum id last
     (fst (generate_options (- ln (6/19) - ln (17/60)) '' a'' '' ''
             (lang_fit 0 1 (1/1000) '' abracadabra '')
             (missed_fit 0 (3/10) 1 [(''abracadabra'', ''abr-c-d-br-'')]) (1/2)
             (Some [(0, 0), (1, - ln (6/19) - ln (43/60)),
                    (2, - ln (6/19) - ln (3/19) + (- ln (43/60) - ln (3/10)))]))) =
     Inr (- ln (6/19) - ln (17/60) + (- ln (3/19) - ln (7/10)), '' a '', [], [], 0) \<and>
   - ln (6/19) - ln (3/19) + (- ln (43/60) - ln (3/10)) \<noteq>
     - ln (6/19) - ln (17/60) + (- ln (3/19) - ln (7/10 :: real))"
proof -
  let ?lm = "lang_fit 0 1 (1/1000) '' abracadabra ''"
  let ?mm = "missed_fit 0 (3/10) 1 [(''abracadabra'', ''abr-c-d-br-'')]"
  let ?cache = "[(0, 0), (1, - ln (6/19) - ln (43/60)),
                 (2, - ln (6/19) - ln (3/19) + (- ln (43/60) - ln (3/10)))] :: cache"
  have b: "noisy_channel_value ''a'' ?lm ?mm 2 0 (1/2) =
             Inr [(''a'', - ln (6/19) - ln (3/19) + (- ln (43/60) - ln (3/10)))]"
    by (simp add: search_eval lang_eval missed_eval)
  have g1: "map_sum id last (generate_options_value 0 '' '' ''a '' ?lm ?mm (1/2) (Some ?cache)) =
     Inr (- ln (6/19) - ln (17/60) + (- ln (6/19) - ln (43/60)) * (1/2), '' a'', '' '', [],
          (- ln (6/19) - ln (43/60)) * (1/2))"
    by (simp add: search_eval lang_eval missed_eval)
  have g2: "map_sum id last
       (generate_options_value (- ln (6/19) - ln (17/60)) '' a'' '' '' ?lm ?mm (1/2) (Some ?cache)) =
     Inr (- ln (6/19) - ln (17/60) + (- ln (3/19) - ln (7/10)), '' a '', [], [], 0)"
    by (simp add: search_eval lang_eval missed_eval)
  have "ln (43/60) + ln (3/10) \<noteq> ln (17/60) + ln (7/10 :: real)"
    by (rule ln_sum_neq) simp_all
  then have ne: "- ln (6/19) - ln (3/19) + (- ln (43/60) - ln (3/10)) \<noteq>
     - ln (6/19) - ln (17/60) + (- ln (3/19) - ln (7/10 :: real))"
    by simp
  have v1: "fst (noisy_channel ''a'' ?lm ?mm 2 0 (1/2)) = noisy_channel_value ''a'' ?lm ?mm 2 0 (1/2)"
    using noisy_channel_view by blast
  have v2: "\<And>pp p s. fst (generate_options pp p s ?lm ?mm (1/2) (Some ?cache)) =
              generate_options_value pp p s ?lm ?mm (1/2) (Some ?cache)"
    using generate_options_view[OF lang_grown_refl missed_grown_refl] by blast
  show ?thesis
    unfolding v1 v2 using b g1 g2 ne by blast
qed

text \<open>
  The first part of claim C2 holds in the code: the loop only appends to the
  candidates, so the default candidate stays first, and the final filter returns its
  phrase, the word itself, whenever its score is within \<^verbatim>\<open>freedom\<close> of the best score
  the loop ends with.
\<close>

theorem baseline_phrase_is_returned:
  assumes "fst (noisy_channel_loop max_attempts heap
                  [(baseline, '' '' @ (word @ '' ''), [], None, 0)] best lm mm freedom optimism cache)
             = Inr (heap', candidates', best')"
      and "baseline \<le> best' + freedom"
  shows "word \<in> fst ` set (collect_result candidates' best' freedom [])"
proof -
  have "loop_value max_attempts heap [(baseline, '' '' @ (word @ '' ''), [], None, 0)] best lm mm
          freedom optimism cache = Inr (heap', candidates', best')"
    using assms(1) noisy_channel_loop_view[OF lang_grown_refl missed_grown_refl] by metis
  then obtain extra where
    "candidates' = [(baseline, '' '' @ (word @ '' ''), [], None, 0)] @ extra"
    using loop_value_candidates by blast
  then have "(baseline, '' '' @ (word @ '' ''), [], None, 0) \<in> set candidates'" by simp
  then have "butlast (tl (fst (snd (baseline, '' '' @ (word @ '' ''), [], None :: string option, 0 :: real))))
               \<in> fst ` set (collect_result candidates' best' freedom [])"
    unfolding collect_result_keys using assms(2) by force
  then show ?thesis by simp
qed

end
